theory Spec2Isabelle
  imports Complex_Main "HOL-Library.Word"
begin

unbundle bit_operations_syntax

section \<open>Basic types\<close>

text \<open>
  Go's \<open>int64\<close> is a 64-bit word; the signed order is \<open><s\<close> and \<open>\<le>s\<close>, and \<open>+\<close>
  wraps around as the Go operator does. A \<open>[]byte\<close> is a list of 8-bit words, a Go
  \<open>string\<close> a \<open>string\<close>. Lengths of in-memory collections (\<open>len\<close>) are \<open>int\<close>.
\<close>

type_synonym int64 = "64 word"
type_synonym byte = "8 word"

definition MinInt64 :: int64 where
  "MinInt64 = - 9223372036854775808"

definition MaxInt64 :: int64 where
  "MaxInt64 = 9223372036854775807"

text \<open>
  Errors are values. \<open>KeyNotFound\<close> is the store's sentinel, \<open>Failed\<close> carries the
  message of a \<open>fmt.Errorf\<close> or of a collaborator, \<open>Wrap\<close> is \<open>fmt.Errorf("...: %s", err)\<close>,
  \<open>Panic\<close> is a Go run-time panic (nil dereference, slice out of range), \<open>Fatal\<close> is
  \<open>logger.Fatal\<close>, and \<open>OutOfFuel\<close> marks a recursion that was cut by the fuel of the
  model (the source would recurse for ever or exhaust its stack).
\<close>

datatype error = KeyNotFound | Failed string | Wrap string error | Panic | Fatal string | OutOfFuel

text \<open>A panic or a cut recursion is not an error value that Go code can wrap.\<close>

fun wrapErr :: "string \<Rightarrow> error \<Rightarrow> error" where
  "wrapErr m Panic = Panic"
| "wrapErr m OutOfFuel = OutOfFuel"
| "wrapErr m (Fatal s) = Fatal s"
| "wrapErr m e = Wrap m e"

section \<open>Hexadecimal text\<close>

definition hexDigitUpper :: "nat \<Rightarrow> char" where
  "hexDigitUpper n = ''0123456789ABCDEF'' ! (n mod 16)"

text \<open>\<open>fmt.Sprintf("%X", bytes)\<close>: two upper-case digits for every byte.\<close>

definition hexUpper :: "byte list \<Rightarrow> string" where
  "hexUpper bs =
     concat (map (\<lambda>b. [hexDigitUpper (unat b div 16), hexDigitUpper (unat b mod 16)]) bs)"

definition fromHexChar :: "char \<Rightarrow> nat option" where
  "fromHexChar c =
     (let n = (of_char c :: nat) in
      if 48 \<le> n \<and> n \<le> 57 then Some (n - 48)
      else if 97 \<le> n \<and> n \<le> 102 then Some (n - 97 + 10)
      else if 65 \<le> n \<and> n \<le> 70 then Some (n - 65 + 10)
      else None)"

text \<open>
  \<open>hex.DecodeString\<close>: the bytes decoded before the first error, and whether there
  was an error (an invalid digit or an odd length).
\<close>

fun hexDecodeString :: "string \<Rightarrow> byte list \<times> bool" where
  "hexDecodeString [] = ([], False)"
| "hexDecodeString [c] = ([], True)"
| "hexDecodeString (p # q # rest) =
     (case (fromHexChar p, fromHexChar q) of
        (Some a, Some b) \<Rightarrow>
          (case hexDecodeString rest of (bs, e) \<Rightarrow> (of_nat (a * 16 + b) # bs, e))
      | _ \<Rightarrow> ([], True))"

text \<open>
  \<open>middleBit\<close>: \<open>ehex[2:]\<close> panics on a string shorter than two characters; a decoding
  error is only printed, and the bytes decoded so far are used.
\<close>

definition middleBit :: "string \<Rightarrow> error + bool" where
  "middleBit ehex =
     (if length ehex < 2 then Inl Panic
      else
        (case hexDecodeString (drop 2 ehex) of
           (hash, err) \<Rightarrow>
             if length hash > 0 \<and> hash ! (length hash div 2) = 0 then Inr False
             else Inr True))"

section \<open>The LRU cache\<close>

text \<open>
  The caches are \<open>lru.Cache\<close> values of the library golang-lru: a bounded map that
  evicts the least recently used entry. \<open>entries\<close> holds the most recent entry first.
  \<open>lru.New\<close> fails on a size that is not positive; \<open>Get\<close> makes the entry the most
  recent; \<open>Add\<close> stores the entry as the most recent and evicts beyond the capacity.
\<close>

record ('k, 'v) lru =
  cap :: nat
  entries :: "('k \<times> 'v) list"

definition lru_New :: "int \<Rightarrow> error + ('k, 'v) lru" where
  "lru_New sz =
     (if sz \<le> 0 then Inl (Failed ''Must provide a positive size'')
      else Inr \<lparr> cap = nat sz, entries = [] \<rparr>)"

definition lru_Get :: "'k \<Rightarrow> ('k, 'v) lru \<Rightarrow> 'v option \<times> ('k, 'v) lru" where
  "lru_Get k c =
     (case map_of (entries c) k of
        None \<Rightarrow> (None, c)
      | Some v \<Rightarrow> (Some v, c\<lparr> entries := (k, v) # filter (\<lambda>e. fst e \<noteq> k) (entries c) \<rparr>))"

definition lru_Add :: "'k \<Rightarrow> 'v \<Rightarrow> ('k, 'v) lru \<Rightarrow> ('k, 'v) lru" where
  "lru_Add k v c =
     c\<lparr> entries := take (cap c) ((k, v) # filter (\<lambda>e. fst e \<noteq> k) (entries c)) \<rparr>"

definition lru_keys :: "('k, 'v) lru \<Rightarrow> 'k set" where
  "lru_keys c = fst ` set (entries c)"

section \<open>Events (event.go)\<close>

record Peer =
  ID :: int64
  NetAddr :: string
  PubKeyHex :: string

datatype TransactionType = PEER_ADD | PEER_REMOVE

record InternalTransaction =
  Type :: TransactionType
  Peer :: Peer

record BlockSignature =
  Validator :: "byte list"
  BSIndex :: int64
  BSSignature :: string

text \<open>
  \<open>Transactions\<close> is a slice of byte slices; the source distinguishes the nil slice
  from an empty one, so the field is an option (\<open>None\<close> is nil). The flag table is kept
  decoded, as the list of its entries. The fields \<open>ev_creator\<close>, \<open>ev_hash\<close> and
  \<open>ev_hex\<close> are the memoised results of \<open>Creator()\<close>, \<open>Hash()\<close> and \<open>Hex()\<close>; the
  accessors below read them as the source does and leave the memoisation itself out.
\<close>

record EventBody =
  Transactions :: "byte list list option"
  InternalTransactions :: "InternalTransaction list"
  Parents :: "string list"
  Creator :: "byte list"
  Index :: int64
  BlockSignatures :: "BlockSignature list"
  selfParentIndex :: int64
  otherParentCreatorID :: int64
  otherParentIndex :: int64
  creatorID :: int64

record Event =
  Body :: EventBody
  Signature :: string
  ev_topologicalIndex :: int64
  ev_round :: "int64 option"
  ev_lamportTimestamp :: "int64 option"
  ev_roundReceived :: "int64 option"
  ev_creator :: string
  ev_hash :: "byte list"
  ev_hex :: string
  FlagTable :: "(string \<times> int64) list"
  WitnessProof :: "string list"

definition len_Transactions :: "EventBody \<Rightarrow> int" where
  "len_Transactions b = (case Transactions b of None \<Rightarrow> 0 | Some ts \<Rightarrow> int (length ts))"

definition Event_Creator :: "Event \<Rightarrow> string" where
  "Event_Creator e =
     (if ev_creator e = [] then ''0x'' @ hexUpper (Creator (Body e)) else ev_creator e)"

definition Event_SelfParent :: "Event \<Rightarrow> string" where
  "Event_SelfParent e = (case Parents (Body e) of [] \<Rightarrow> [] | sp # _ \<Rightarrow> sp)"

definition Event_OtherParentN :: "Event \<Rightarrow> int \<Rightarrow> string" where
  "Event_OtherParentN e n =
     (if n \<ge> 0 \<and> n < int (length (Parents (Body e))) - 1
      then drop 1 (Parents (Body e)) ! nat n else [])"

text \<open>The engine uses one other-parent: \<open>OtherParent()\<close> is the first of them.\<close>

definition Event_OtherParent :: "Event \<Rightarrow> string" where
  "Event_OtherParent e = Event_OtherParentN e 0"

definition Event_Index :: "Event \<Rightarrow> int64" where
  "Event_Index e = Index (Body e)"

definition Event_BlockSignatures :: "Event \<Rightarrow> BlockSignature list" where
  "Event_BlockSignatures e = BlockSignatures (Body e)"

text \<open>\<open>Event.IsLoaded\<close>: true if the event contains a payload or is the initial event.\<close>

definition IsLoaded :: "Event \<Rightarrow> bool" where
  "IsLoaded e =
     (if Index (Body e) = 0 then True
      else
        (let hasTransactions =
               (Transactions (Body e) \<noteq> None \<and>
                 (len_Transactions (Body e) > 0 \<or>
                  int (length (InternalTransactions (Body e))) > 0))
         in hasTransactions))"

definition SetWireInfo :: "Event \<Rightarrow> int64 \<Rightarrow> int64 \<Rightarrow> int64 \<Rightarrow> int64 \<Rightarrow> Event" where
  "SetWireInfo e spi opc opi cid =
     e\<lparr> Body := (Body e)\<lparr> selfParentIndex := spi, otherParentCreatorID := opc,
                          otherParentIndex := opi, creatorID := cid \<rparr> \<rparr>"

section \<open>Roots, rounds, blocks, frames, participants\<close>

text \<open>
  \<open>Root.SelfParent\<close> and the values of \<open>Root.Others\<close> are pointers in the source; every
  root that \<open>NewBaseRoot\<close> and \<open>createRoot\<close> build has them set, and the record type
  leaves the nil pointer out. A Go map that the code only looks up or updates is an
  association list with distinct keys, read with \<open>map_of\<close>; where the code ranges over
  a map, the list's order stands for the iteration order, which Go leaves open.
\<close>

record RootEvent =
  REHash :: string
  RECreatorID :: int64
  REIndex :: int64
  RELamportTimestamp :: int64
  RERound :: int64

record Root =
  NextRound :: int64
  SelfParent :: RootEvent
  Others :: "(string \<times> RootEvent) list"

text \<open>
  Modelled from the spec: the participants registry (package peers, type Peers, is not
  among the sources): an ordered set of validator public keys with their integer IDs.
  \<open>ByPubKey\<close> and \<open>ById\<close> are the two look-ups, \<open>Len\<close> the number of participants,
  \<open>ToPeerSlice\<close> and \<open>ToPubKeySlice\<close> the ordered views.
\<close>

type_synonym Peers = "Peer list"

definition ByPubKey :: "Peers \<Rightarrow> string \<Rightarrow> Peer option" where
  "ByPubKey ps k = find (\<lambda>q. PubKeyHex q = k) ps"

definition ById :: "Peers \<Rightarrow> int64 \<Rightarrow> Peer option" where
  "ById ps i = find (\<lambda>q. ID q = i) ps"

definition Len :: "Peers \<Rightarrow> int" where
  "Len ps = int (length ps)"

definition ToPeerSlice :: "Peers \<Rightarrow> Peer list" where
  "ToPeerSlice ps = ps"

definition ToPubKeySlice :: "Peers \<Rightarrow> string list" where
  "ToPubKeySlice ps = map PubKeyHex ps"

text \<open>
  Modelled from the spec: the Round object (round.go is not among the sources): the
  events assigned to the round with their flags (witness?, famous in Undefined, True,
  False), a list of consensus events, and the \<open>queued\<close> mark. A witness is decided when
  its fame is not Undefined; the round is decided when every witness is.
\<close>

datatype Trilean = Undefined | Yes | No

record RoundEvent =
  Witness :: bool
  Famous :: Trilean

record RoundInfo =
  Events :: "(string \<times> RoundEvent) list"
  ConsensusEventList :: "string list"
  queued :: bool

definition Witnesses :: "RoundInfo \<Rightarrow> string list" where
  "Witnesses r = map fst (filter (\<lambda>(h, e). Witness e) (Events r))"

definition IsDecided :: "RoundInfo \<Rightarrow> string \<Rightarrow> bool" where
  "IsDecided r x =
     (case map_of (Events r) x of
        None \<Rightarrow> False
      | Some e \<Rightarrow> Witness e \<and> Famous e \<noteq> Undefined)"

definition alist_upd :: "'k \<Rightarrow> 'v \<Rightarrow> ('k \<times> 'v) list \<Rightarrow> ('k \<times> 'v) list" where
  "alist_upd k v xs =
     (if k \<in> fst ` set xs then map (\<lambda>(k', v'). if k' = k then (k', v) else (k', v')) xs
      else xs @ [(k, v)])"

definition SetFame :: "RoundInfo \<Rightarrow> string \<Rightarrow> bool \<Rightarrow> RoundInfo" where
  "SetFame r x f =
     (let e = (case map_of (Events r) x of
                 None \<Rightarrow> \<lparr> Witness = True, Famous = Undefined \<rparr>
               | Some e0 \<Rightarrow> e0)
      in r\<lparr> Events := alist_upd x (e\<lparr> Famous := (if f then Yes else No) \<rparr>) (Events r) \<rparr>)"

definition WitnessesDecided :: "RoundInfo \<Rightarrow> bool" where
  "WitnessesDecided r =
     list_all (\<lambda>(h, e). \<not> (Witness e \<and> Famous e = Undefined)) (Events r)"

definition FamousWitnesses :: "RoundInfo \<Rightarrow> string list" where
  "FamousWitnesses r = map fst (filter (\<lambda>(h, e). Witness e \<and> Famous e = Yes) (Events r))"

definition SetConsensusEvent :: "RoundInfo \<Rightarrow> string \<Rightarrow> RoundInfo" where
  "SetConsensusEvent r x = r\<lparr> ConsensusEventList := ConsensusEventList r @ [x] \<rparr>"

definition ConsensusEvents :: "RoundInfo \<Rightarrow> string list" where
  "ConsensusEvents r = ConsensusEventList r"

text \<open>
  Modelled from the spec: Block and Frame (block.go and frame.go are not among the
  sources). A block has an index, a round-received, the frame hash, the transactions and
  the signatures keyed by validator; \<open>SetSignature\<close> files a signature under its
  validator's key. A frame is a round, the roots ordered by participant and the events.
\<close>

record Block =
  BlockIndex :: int64
  BlockRoundReceived :: int64
  FrameHash :: "byte list"
  BlockTransactions :: "byte list list"
  Signatures :: "(string \<times> string) list"

definition ValidatorHex :: "BlockSignature \<Rightarrow> string" where
  "ValidatorHex bs = ''0x'' @ hexUpper (Validator bs)"

definition SetSignature :: "Block \<Rightarrow> BlockSignature \<Rightarrow> Block" where
  "SetSignature b bs =
     b\<lparr> Signatures := alist_upd (ValidatorHex bs) (BSSignature bs) (Signatures b) \<rparr>"

record Frame =
  FrameRound :: int64
  Roots :: "Root list"
  FrameEvents :: "Event list"

record pendingRound =
  PRIndex :: int64
  Decided :: bool

section \<open>The engine's collaborators\<close>

text \<open>
  \<open>Store\<close> is a Go interface, and the engine is written against it: the model takes
  the interface as a record of operations over a store state \<open>'s\<close>. A read is a
  function of the store state; a write returns the error (if any) and the new state.
  \<open>LastEventFrom\<close> returns its three results, since the engine reads the first two
  also when the third is an error. The record also carries the functions of packages
  that are not among the sources: the body hash (SHA-256 over the encoding), the
  signature codec and ECDSA verification of package crypto, \<open>Block.Verify\<close> and
  \<open>NewBlockFromFrame\<close>.
\<close>

record 's Env =
  st_CacheSize :: "'s \<Rightarrow> int"
  st_GetEvent :: "'s \<Rightarrow> string \<Rightarrow> error + Event"
  st_SetEvent :: "'s \<Rightarrow> Event \<Rightarrow> error option \<times> 's"
  st_LastEventFrom :: "'s \<Rightarrow> string \<Rightarrow> string \<times> bool \<times> error option"
  st_LastConsensusEventFrom :: "'s \<Rightarrow> string \<Rightarrow> string \<times> bool \<times> error option"
  st_GetRoot :: "'s \<Rightarrow> string \<Rightarrow> error + Root"
  st_RootsBySelfParent :: "'s \<Rightarrow> error + (string \<times> Root) list"
  st_GetRound :: "'s \<Rightarrow> int64 \<Rightarrow> error + RoundInfo"
  st_SetRound :: "'s \<Rightarrow> int64 \<Rightarrow> RoundInfo \<Rightarrow> error option \<times> 's"
  st_RoundWitnesses :: "'s \<Rightarrow> int64 \<Rightarrow> string list"
  st_LastRound :: "'s \<Rightarrow> int64"
  st_GetBlock :: "'s \<Rightarrow> int64 \<Rightarrow> error + Block"
  st_SetBlock :: "'s \<Rightarrow> Block \<Rightarrow> error option \<times> 's"
  st_LastBlockIndex :: "'s \<Rightarrow> int64"
  st_GetFrame :: "'s \<Rightarrow> int64 \<Rightarrow> error + Frame"
  st_SetFrame :: "'s \<Rightarrow> Frame \<Rightarrow> error option \<times> 's"
  st_AddConsensusEvent :: "'s \<Rightarrow> Event \<Rightarrow> error option \<times> 's"
  st_Reset :: "'s \<Rightarrow> (string \<times> Root) list \<Rightarrow> error option \<times> 's"
  HashBody :: "EventBody \<Rightarrow> error + byte list"
  DecodeSignature :: "string \<Rightarrow> error + (int \<times> int)"
  cryptoVerify :: "byte list \<Rightarrow> byte list \<Rightarrow> int \<Rightarrow> int \<Rightarrow> bool"
  BlockVerify :: "Block \<Rightarrow> BlockSignature \<Rightarrow> error + bool"
  NewBlockFromFrame :: "int64 \<Rightarrow> Frame \<Rightarrow> error + Block"

definition Event_Hash :: "'s Env \<Rightarrow> Event \<Rightarrow> error + byte list" where
  "Event_Hash S e = (if length (ev_hash e) = 0 then HashBody S (Body e) else Inr (ev_hash e))"

definition Event_Hex :: "'s Env \<Rightarrow> Event \<Rightarrow> string" where
  "Event_Hex S e =
     (if ev_hex e = [] then
        ''0x'' @ hexUpper (case Event_Hash S e of Inl err \<Rightarrow> [] | Inr h \<Rightarrow> h)
      else ev_hex e)"

text \<open>\<open>Event.Verify\<close>: the pair (ok, err) of the source.\<close>

definition Event_Verify :: "'s Env \<Rightarrow> Event \<Rightarrow> bool \<times> error option" where
  "Event_Verify S e =
     (case HashBody S (Body e) of
        Inl err \<Rightarrow> (False, Some err)
      | Inr signBytes \<Rightarrow>
          (case DecodeSignature S (Signature e) of
             Inl err \<Rightarrow> (False, Some err)
           | Inr (r, s) \<Rightarrow> (cryptoVerify S (Creator (Body e)) signBytes r s, None)))"

section \<open>The Poset (poset.go)\<close>

text \<open>
  The commit channel is the list of the blocks sent on it (\<open>None\<close> is the nil channel).
  \<open>core\<close> is the pair (Head, HexID) of the Core interface.
\<close>

record 's Poset =
  participants :: Peers
  store :: 's
  core :: "(string \<times> string) option"
  superMajority :: int
  trustCount :: int
  commitCh :: "Block list option"
  undeterminedEvents :: "string list"
  pendingRounds :: "pendingRound list"
  lastConsensusRound :: "int64 option"
  firstConsensusRound :: "int64 option"
  anchorBlock :: "int64 option"
  sigPool :: "BlockSignature list"
  consensusTransactions :: "64 word"
  pendingLoadedEvents :: int
  topologicalIndex :: int64
  ancestorCache :: "(string \<times> string, bool) lru"
  selfAncestorCache :: "(string \<times> string, bool) lru"
  stronglySeeCache :: "(string \<times> string, bool) lru"
  roundCache :: "(string, int64) lru"
  timestampCache :: "(string, int64) lru"

text \<open>
  \<open>NewPoset\<close>: the thresholds come from the number of participants; a cache that
  cannot be built is fatal. \<open>math.Ceil(float64(n) / 3)\<close> is exact for a length.
\<close>

definition NewPoset :: "'s Env \<Rightarrow> Peers \<Rightarrow> 's \<Rightarrow> Block list option \<Rightarrow> error + 's Poset" where
  "NewPoset S ps st ch =
     (let sm = 2 * Len ps div 3 + 1;
          tc = (Len ps + 2) div 3;
          cacheSize = st_CacheSize S st
      in if cacheSize \<le> 0 then Inl (Fatal ''Unable to init Poset.ancestorCache'')
         else Inr \<lparr> participants = ps, store = st, core = None,
                    superMajority = sm, trustCount = tc, commitCh = ch,
                    undeterminedEvents = [], pendingRounds = [],
                    lastConsensusRound = None, firstConsensusRound = None,
                    anchorBlock = None, sigPool = [], consensusTransactions = 0,
                    pendingLoadedEvents = 0, topologicalIndex = 0,
                    ancestorCache = \<lparr> cap = nat cacheSize, entries = [] \<rparr>,
                    selfAncestorCache = \<lparr> cap = nat cacheSize, entries = [] \<rparr>,
                    stronglySeeCache = \<lparr> cap = nat cacheSize, entries = [] \<rparr>,
                    roundCache = \<lparr> cap = nat cacheSize, entries = [] \<rparr>,
                    timestampCache = \<lparr> cap = nat cacheSize, entries = [] \<rparr> \<rparr>)"

definition setLastConsensusRound :: "int64 \<Rightarrow> 's Poset \<Rightarrow> 's Poset" where
  "setLastConsensusRound i p =
     (let p1 = p\<lparr> lastConsensusRound := Some i \<rparr>
      in if firstConsensusRound p1 = None then p1\<lparr> firstConsensusRound := Some i \<rparr> else p1)"

section \<open>Lamport timestamps\<close>

text \<open>
  \<open>lamportTimestamp\<close> and \<open>lamportTimestamp2\<close> call each other. The model gives
  \<open>lamportTimestamp2\<close> the function \<open>rec\<close> that stands for the calls of
  \<open>p.lamportTimestamp\<close>, and ties the knot with fuel: \<open>lamportTimestamp n\<close> may nest
  \<open>lamportTimestamp2\<close> n deep. Every function returns its result with the engine,
  whose caches it has touched.
\<close>

definition rootsBySelfParentOrNil :: "'s Env \<Rightarrow> 's Poset \<Rightarrow> (string \<times> Root) list" where
  "rootsBySelfParentOrNil S p =
     (case st_RootsBySelfParent S (store p) of Inl err \<Rightarrow> [] | Inr rs \<Rightarrow> rs)"

definition lamportTimestamp2 ::
  "'s Env \<Rightarrow> (string \<Rightarrow> 's Poset \<Rightarrow> (error + int64) \<times> 's Poset) \<Rightarrow>
   string \<Rightarrow> 's Poset \<Rightarrow> (error + int64) \<times> 's Poset" where
  "lamportTimestamp2 S rec x p =
     (case map_of (rootsBySelfParentOrNil S p) x of
        Some r \<Rightarrow> (Inr (RELamportTimestamp (SelfParent r)), p)
      | None \<Rightarrow>
     (case st_GetEvent S (store p) x of
        Inl err \<Rightarrow> (Inl err, p)
      | Inr ex \<Rightarrow>
     (case st_GetRoot S (store p) (Event_Creator ex) of
        Inl err \<Rightarrow> (Inl err, p)
      | Inr rt \<Rightarrow>
     (case (if Event_SelfParent ex = REHash (SelfParent rt)
            then (Inr (RELamportTimestamp (SelfParent rt)), p)
            else rec (Event_SelfParent ex) p) of
        (Inl err, p1) \<Rightarrow> (Inl err, p1)
      | (Inr plt, p1) \<Rightarrow>
          if Event_OtherParent ex \<noteq> [] then
            (case (case st_GetEvent S (store p1) (Event_OtherParent ex) of
                     Inr eop \<Rightarrow> rec (Event_OtherParent ex) p1
                   | Inl err \<Rightarrow>
                       (case map_of (Others rt) x of
                          Some other \<Rightarrow>
                            if REHash other = Event_OtherParent ex
                            then (Inr (RELamportTimestamp other), p1)
                            else (Inr MinInt64, p1)
                        | None \<Rightarrow> (Inr MinInt64, p1))) of
               (Inl err, p2) \<Rightarrow> (Inl err, p2)
             | (Inr opLT, p2) \<Rightarrow> (Inr ((if plt <s opLT then opLT else plt) + 1), p2))
          else (Inr (plt + 1), p1)))))"

definition lamportTimestampCached ::
  "(string \<Rightarrow> 's Poset \<Rightarrow> (error + int64) \<times> 's Poset) \<Rightarrow>
   string \<Rightarrow> 's Poset \<Rightarrow> (error + int64) \<times> 's Poset" where
  "lamportTimestampCached f x p =
     (case lru_Get x (timestampCache p) of
        (Some c, tc) \<Rightarrow> (Inr c, p\<lparr> timestampCache := tc \<rparr>)
      | (None, tc) \<Rightarrow>
          (case f x (p\<lparr> timestampCache := tc \<rparr>) of
             (Inl err, p1) \<Rightarrow> (Inl err, p1)
           | (Inr r, p1) \<Rightarrow> (Inr r, p1\<lparr> timestampCache := lru_Add x r (timestampCache p1) \<rparr>)))"

primrec lamportTimestamp ::
  "nat \<Rightarrow> 's Env \<Rightarrow> string \<Rightarrow> 's Poset \<Rightarrow> (error + int64) \<times> 's Poset" where
  "lamportTimestamp 0 S = lamportTimestampCached (\<lambda>x p. (Inl OutOfFuel, p))"
| "lamportTimestamp (Suc n) S =
     lamportTimestampCached (lamportTimestamp2 S (lamportTimestamp n S))"

text \<open>\<open>lamportTimestampDiff\<close>: lamport(y) - lamport(x).\<close>

definition lamportTimestampDiff ::
  "nat \<Rightarrow> 's Env \<Rightarrow> string \<Rightarrow> string \<Rightarrow> 's Poset \<Rightarrow> (error + int64) \<times> 's Poset" where
  "lamportTimestampDiff n S x y p =
     (case lamportTimestamp n S x p of
        (Inl err, p1) \<Rightarrow> (Inl err, p1)
      | (Inr xlt, p1) \<Rightarrow>
          (case lamportTimestamp n S y p1 of
             (Inl err, p2) \<Rightarrow> (Inl err, p2)
           | (Inr ylt, p2) \<Rightarrow> (Inr (ylt - xlt), p2)))"

section \<open>Graph predicates\<close>

text \<open>
  The first rt, in iteration order, whose Others has an entry for y, as the loop of
  \<open>ancestor2\<close> finds it.
\<close>

fun firstOthers :: "(string \<times> Root) list \<Rightarrow> string \<Rightarrow> RootEvent option" where
  "firstOthers [] y = None"
| "firstOthers ((k, rt) # rs) y =
     (case map_of (Others rt) y of Some other \<Rightarrow> Some other | None \<Rightarrow> firstOthers rs y)"

definition ancestorOfParents ::
  "(string \<Rightarrow> string \<Rightarrow> 's Poset \<Rightarrow> (error + bool) \<times> 's Poset) \<Rightarrow>
   Event \<Rightarrow> string \<Rightarrow> 's Poset \<Rightarrow> (error + bool) \<times> 's Poset" where
  "ancestorOfParents rec ex y p =
     (case rec (Event_SelfParent ex) y p of
        (Inl err, p1) \<Rightarrow> (Inl err, p1)
      | (Inr res, p1) \<Rightarrow> if res then (Inr True, p1) else rec (Event_OtherParent ex) y p1)"

definition ancestor2 ::
  "nat \<Rightarrow> 's Env \<Rightarrow> (string \<Rightarrow> string \<Rightarrow> 's Poset \<Rightarrow> (error + bool) \<times> 's Poset) \<Rightarrow>
   string \<Rightarrow> string \<Rightarrow> 's Poset \<Rightarrow> (error + bool) \<times> 's Poset" where
  "ancestor2 n S rec x y p =
     (if x = y then (Inr True, p)
      else
     (case st_GetEvent S (store p) x of
        Inl err \<Rightarrow>
          (case st_RootsBySelfParent S (store p) of
             Inl err2 \<Rightarrow> (Inl err2, p)
           | Inr roots \<Rightarrow>
               (case firstOthers roots y of
                  Some other \<Rightarrow> (Inr (REHash other = x), p)
                | None \<Rightarrow> (Inr False, p)))
      | Inr ex \<Rightarrow>
     (case lamportTimestampDiff n S x y p of
        (Inl err, p1) \<Rightarrow> (Inl err, p1)
      | (Inr lamportDiff, p1) \<Rightarrow>
          if 0 <s lamportDiff then (Inr False, p1)
          else
     (case st_GetEvent S (store p1) y of
        Inl err \<Rightarrow>
          (case st_RootsBySelfParent S (store p1) of
             Inl err2 \<Rightarrow> (Inl err2, p1)
           | Inr roots \<Rightarrow>
               (case map_of roots y of
                  Some rt \<Rightarrow>
                    (case ById (participants p1) (RECreatorID (SelfParent rt)) of
                       None \<Rightarrow> (Inl Panic, p1)
                     | Some peer \<Rightarrow>
                         if Event_Creator ex = PubKeyHex peer
                         then (Inr (REIndex (SelfParent rt) \<le>s Event_Index ex), p1)
                         else ancestorOfParents rec ex y p1)
                | None \<Rightarrow> (Inr False, p1)))
      | Inr ey \<Rightarrow>
          if Event_Creator ex = Event_Creator ey
          then (Inr (Event_Index ey \<le>s Event_Index ex), p1)
          else ancestorOfParents rec ex y p1))))"

definition ancestorCached ::
  "(string \<Rightarrow> string \<Rightarrow> 's Poset \<Rightarrow> (error + bool) \<times> 's Poset) \<Rightarrow>
   string \<Rightarrow> string \<Rightarrow> 's Poset \<Rightarrow> (error + bool) \<times> 's Poset" where
  "ancestorCached f x y p =
     (case lru_Get (x, y) (ancestorCache p) of
        (Some c, ac) \<Rightarrow> (Inr c, p\<lparr> ancestorCache := ac \<rparr>)
      | (None, ac) \<Rightarrow>
          if length x = 0 \<or> length y = 0 then (Inr False, p\<lparr> ancestorCache := ac \<rparr>)
          else
            (case f x y (p\<lparr> ancestorCache := ac \<rparr>) of
               (Inl err, p1) \<Rightarrow> (Inl err, p1)
             | (Inr a, p1) \<Rightarrow>
                 (Inr a, p1\<lparr> ancestorCache := lru_Add (x, y) a (ancestorCache p1) \<rparr>)))"

text \<open>\<open>ancestor x y\<close>: true if y is an ancestor of x.\<close>

primrec ancestor ::
  "nat \<Rightarrow> 's Env \<Rightarrow> string \<Rightarrow> string \<Rightarrow> 's Poset \<Rightarrow> (error + bool) \<times> 's Poset" where
  "ancestor 0 S = ancestorCached (\<lambda>x y p. (Inl OutOfFuel, p))"
| "ancestor (Suc n) S = ancestorCached (ancestor2 n S (ancestor n S))"

definition selfAncestor2 ::
  "'s Env \<Rightarrow> string \<Rightarrow> string \<Rightarrow> 's Poset \<Rightarrow> (error + bool) \<times> 's Poset" where
  "selfAncestor2 S x y p =
     (if x = y then (Inr True, p)
      else
     (case st_GetEvent S (store p) x of
        Inl err0 \<Rightarrow>
          (case st_RootsBySelfParent S (store p) of
             Inl err \<Rightarrow> (Inl err, p)
           | Inr roots \<Rightarrow>
               (case map_of roots x of
                  Some rt \<Rightarrow>
                    if REHash (SelfParent rt) = y then (Inr True, p) else (Inr False, p)
                | None \<Rightarrow> (Inr False, p)))
      | Inr ex \<Rightarrow>
     (case st_GetEvent S (store p) y of
        Inl err \<Rightarrow>
          (case st_RootsBySelfParent S (store p) of
             Inl err2 \<Rightarrow> (Inl err2, p)
           | Inr roots \<Rightarrow>
               (case map_of roots y of
                  Some rt \<Rightarrow>
                    (case ById (participants p) (RECreatorID (SelfParent rt)) of
                       None \<Rightarrow> (Inl Panic, p)
                     | Some peer \<Rightarrow>
                         if Event_Creator ex = PubKeyHex peer
                         then (Inr (REIndex (SelfParent rt) \<le>s Event_Index ex), p)
                         else (Inr False, p))
                | None \<Rightarrow> (Inr False, p)))
      | Inr ey \<Rightarrow>
          if Event_Creator ex = Event_Creator ey
          then (Inr (Event_Index ey \<le>s Event_Index ex), p)
          else (Inr False, p))))"

text \<open>\<open>selfAncestor x y\<close>: true if y is a self-ancestor of x.\<close>

definition selfAncestor ::
  "'s Env \<Rightarrow> string \<Rightarrow> string \<Rightarrow> 's Poset \<Rightarrow> (error + bool) \<times> 's Poset" where
  "selfAncestor S x y p =
     (case lru_Get (x, y) (selfAncestorCache p) of
        (Some c, ac) \<Rightarrow> (Inr c, p\<lparr> selfAncestorCache := ac \<rparr>)
      | (None, ac) \<Rightarrow>
          if length x = 0 \<or> length y = 0 then (Inr False, p\<lparr> selfAncestorCache := ac \<rparr>)
          else
            (case selfAncestor2 S x y (p\<lparr> selfAncestorCache := ac \<rparr>) of
               (Inl err, p1) \<Rightarrow> (Inl err, p1)
             | (Inr a, p1) \<Rightarrow>
                 (Inr a, p1\<lparr> selfAncestorCache := lru_Add (x, y) a (selfAncestorCache p1) \<rparr>)))"

text \<open>\<open>see x y\<close>: true if x sees y; forks are not detected here.\<close>

definition see ::
  "nat \<Rightarrow> 's Env \<Rightarrow> string \<Rightarrow> string \<Rightarrow> 's Poset \<Rightarrow> (error + bool) \<times> 's Poset" where
  "see n S x y p = ancestor n S x y p"

text \<open>
  \<open>MapSentinels\<close>: the participants in x's ancestry that see y. The Go map
  \<open>sentinels\<close> only ever holds the value true, so it is the set of its keys; the
  function updates it in place, also when it returns an error, so the model returns
  the set with the error.
\<close>

definition MapSentinels2 ::
  "nat \<Rightarrow> 's Env \<Rightarrow>
   (string \<Rightarrow> string \<Rightarrow> string set \<Rightarrow> 's Poset \<Rightarrow> error option \<times> string set \<times> 's Poset) \<Rightarrow>
   string \<Rightarrow> string \<Rightarrow> string set \<Rightarrow> 's Poset \<Rightarrow> error option \<times> string set \<times> 's Poset" where
  "MapSentinels2 n S rec x y sentinels p =
     (if x = [] then (None, sentinels, p)
      else
     (case see n S x y p of
        (Inl err, p1) \<Rightarrow> (Some err, sentinels, p1)
      | (Inr sees, p1) \<Rightarrow>
          if \<not> sees then (None, sentinels, p1)
          else
     (case st_GetEvent S (store p1) x of
        Inl err \<Rightarrow>
          (case st_RootsBySelfParent S (store p1) of
             Inl err2 \<Rightarrow> (Some err2, sentinels, p1)
           | Inr roots \<Rightarrow>
               (case map_of roots x of
                  Some rt \<Rightarrow>
                    (case ById (participants p1) (RECreatorID (SelfParent rt)) of
                       None \<Rightarrow> (Some Panic, sentinels, p1)
                     | Some creator \<Rightarrow> (None, insert (PubKeyHex creator) sentinels, p1))
                | None \<Rightarrow> (Some err, sentinels, p1)))
      | Inr ex \<Rightarrow>
          (let sentinels1 = insert (Event_Creator ex) sentinels
           in if x = y then (None, sentinels1, p1)
              else
                (case rec (Event_OtherParent ex) y sentinels1 p1 of
                   (Some err, sentinels2, p2) \<Rightarrow> (Some err, sentinels2, p2)
                 | (None, sentinels2, p2) \<Rightarrow> rec (Event_SelfParent ex) y sentinels2 p2)))))"

primrec MapSentinels ::
  "nat \<Rightarrow> 's Env \<Rightarrow> string \<Rightarrow> string \<Rightarrow> string set \<Rightarrow> 's Poset \<Rightarrow>
   error option \<times> string set \<times> 's Poset" where
  "MapSentinels 0 S = MapSentinels2 0 S (\<lambda>x y s p. (Some OutOfFuel, s, p))"
| "MapSentinels (Suc n) S = MapSentinels2 (Suc n) S (MapSentinels n S)"

definition stronglySee2 ::
  "nat \<Rightarrow> 's Env \<Rightarrow> string \<Rightarrow> string \<Rightarrow> 's Poset \<Rightarrow> (error + bool) \<times> 's Poset" where
  "stronglySee2 n S x y p =
     (case MapSentinels n S x y {} p of
        (Some err, sentinels, p1) \<Rightarrow> (Inl err, p1)
      | (None, sentinels, p1) \<Rightarrow> (Inr (int (card sentinels) \<ge> superMajority p1), p1))"

text \<open>\<open>stronglySee x y\<close>: true if x strongly sees y.\<close>

definition stronglySee ::
  "nat \<Rightarrow> 's Env \<Rightarrow> string \<Rightarrow> string \<Rightarrow> 's Poset \<Rightarrow> (error + bool) \<times> 's Poset" where
  "stronglySee n S x y p =
     (if length x = 0 \<or> length y = 0 then (Inr False, p)
      else
        (case lru_Get (x, y) (stronglySeeCache p) of
           (Some c, sc) \<Rightarrow> (Inr c, p\<lparr> stronglySeeCache := sc \<rparr>)
         | (None, sc) \<Rightarrow>
             (case stronglySee2 n S x y (p\<lparr> stronglySeeCache := sc \<rparr>) of
                (Inl err, p1) \<Rightarrow> (Inl err, p1)
              | (Inr ss, p1) \<Rightarrow>
                  (Inr ss, p1\<lparr> stronglySeeCache := lru_Add (x, y) ss (stronglySeeCache p1) \<rparr>))))"

section \<open>Round assignment\<close>

text \<open>
  The flag table is a Go map; the model ranges over its keys in the order of the list.
  \<open>countSee\<close> is the counting loop over the witnesses that match a key; \<open>isSee\<close> is
  the closure of the same name, which gives up at the first error of \<open>see\<close>.
\<close>

fun countSee ::
  "nat \<Rightarrow> 's Env \<Rightarrow> string \<Rightarrow> string list \<Rightarrow> 's Poset \<Rightarrow> (error + int) \<times> 's Poset" where
  "countSee n S hx [] p = (Inr 0, p)"
| "countSee n S hx (w # ws) p =
     (case see n S hx w p of
        (Inl err, p1) \<Rightarrow> (Inl err, p1)
      | (Inr s, p1) \<Rightarrow>
          (case countSee n S hx ws p1 of
             (Inl err, p2) \<Rightarrow> (Inl err, p2)
           | (Inr c, p2) \<Rightarrow> (Inr (if s then c + 1 else c), p2)))"

definition matchingWitnesses :: "string list \<Rightarrow> string list \<Rightarrow> string \<Rightarrow> string list" where
  "matchingWitnesses ks ws hx = concat (map (\<lambda>k. filter (\<lambda>w. w = k \<and> w \<noteq> hx) ws) ks)"

fun isSee ::
  "nat \<Rightarrow> 's Env \<Rightarrow> string \<Rightarrow> string list \<Rightarrow> string \<Rightarrow> 's Poset \<Rightarrow> bool \<times> 's Poset" where
  "isSee n S hx [] r p = (False, p)"
| "isSee n S hx (w # ws) r p =
     (if w = r \<and> w \<noteq> hx then
        (case see n S hx w p of
           (Inl err, p1) \<Rightarrow> (False, p1)
         | (Inr s, p1) \<Rightarrow> if s then (True, p1) else isSee n S hx ws r p1)
      else isSee n S hx ws r p)"

fun countIsSee ::
  "nat \<Rightarrow> 's Env \<Rightarrow> string \<Rightarrow> string list \<Rightarrow> string list \<Rightarrow> 's Poset \<Rightarrow> int \<times> 's Poset" where
  "countIsSee n S hx ws [] p = (0, p)"
| "countIsSee n S hx ws (r # rs) p =
     (case isSee n S hx ws r p of
        (b, p1) \<Rightarrow>
          (case countIsSee n S hx ws rs p1 of
             (c, p2) \<Rightarrow> (if b then c + 1 else c, p2)))"

text \<open>The tail of \<open>round2\<close>: the witness proof, then the flag table.\<close>

definition roundByProofs ::
  "nat \<Rightarrow> 's Env \<Rightarrow> Event \<Rightarrow> int64 \<Rightarrow> 's Poset \<Rightarrow> (error + int64) \<times> 's Poset" where
  "roundByProofs n S ex parentRound p =
     (let ws = st_RoundWitnesses S (store p) parentRound;
          hx = Event_Hex S ex;
          (wpDone, p1) =
            (if int (length (WitnessProof ex)) \<ge> superMajority p then
               (case countIsSee n S hx ws (WitnessProof ex) p of
                  (c, p') \<Rightarrow> (c \<ge> superMajority p', p'))
             else (False, p))
      in if wpDone then (Inr (parentRound + 1), p1)
         else
           (let ft = map fst (FlagTable ex);
                (ftDone, p2) =
                  (if int (length ft) \<ge> superMajority p1 then
                     (case countIsSee n S hx ws ft p1 of
                        (c, p') \<Rightarrow> (c \<ge> superMajority p', p'))
                   else (False, p1))
            in if ftDone then (Inr (parentRound + 1), p2) else (Inr parentRound, p2)))"

definition round2 ::
  "nat \<Rightarrow> 's Env \<Rightarrow> (string \<Rightarrow> 's Poset \<Rightarrow> (error + int64) \<times> 's Poset) \<Rightarrow>
   string \<Rightarrow> 's Poset \<Rightarrow> (error + int64) \<times> 's Poset" where
  "round2 n S rec x p =
     (case map_of (rootsBySelfParentOrNil S p) x of
        Some r \<Rightarrow> (Inr (RERound (SelfParent r)), p)
      | None \<Rightarrow>
     (case st_GetEvent S (store p) x of
        Inl err \<Rightarrow> (Inl err, p)
      | Inr ex \<Rightarrow>
     (case st_GetRoot S (store p) (Event_Creator ex) of
        Inl err \<Rightarrow> (Inl err, p)
      | Inr rt \<Rightarrow>
     (let inOthers =
            (case map_of (Others rt) (Event_Hex S ex) of
               Some other \<Rightarrow> REHash other = Event_OtherParent ex
             | None \<Rightarrow> False)
      in if Event_SelfParent ex = REHash (SelfParent rt) \<and>
            (Event_OtherParent ex = [] \<or> inOthers)
         then (Inr (NextRound rt), p)
         else
     (case rec (Event_SelfParent ex) p of
        (Inl err, p1) \<Rightarrow> (Inl err, p1)
      | (Inr spRound, p1) \<Rightarrow>
          if Event_OtherParent ex \<noteq> [] then
            (case (if inOthers then (Inr (NextRound rt), p1)
                   else rec (Event_OtherParent ex) p1) of
               (Inl err, p2) \<Rightarrow> (Inl err, p2)
             | (Inr opRound, p2) \<Rightarrow>
                 if spRound <s opRound then
                   (let ws = st_RoundWitnesses S (store p2) opRound;
                        ft = map fst (FlagTable ex)
                    in case countSee n S (Event_Hex S ex)
                              (matchingWitnesses ft ws (Event_Hex S ex)) p2 of
                         (Inl err, p3) \<Rightarrow> (Inl err, p3)
                       | (Inr seeOpRoundRoots, p3) \<Rightarrow>
                           if seeOpRoundRoots \<ge> superMajority p3 then (Inr (opRound + 1), p3)
                           else if seeOpRoundRoots > 0 then (Inr opRound, p3)
                           else roundByProofs n S ex opRound p3)
                 else roundByProofs n S ex spRound p2)
          else roundByProofs n S ex spRound p1)))))"

definition roundCached ::
  "(string \<Rightarrow> 's Poset \<Rightarrow> (error + int64) \<times> 's Poset) \<Rightarrow>
   string \<Rightarrow> 's Poset \<Rightarrow> (error + int64) \<times> 's Poset" where
  "roundCached f x p =
     (case lru_Get x (roundCache p) of
        (Some c, rc) \<Rightarrow> (Inr c, p\<lparr> roundCache := rc \<rparr>)
      | (None, rc) \<Rightarrow>
          (case f x (p\<lparr> roundCache := rc \<rparr>) of
             (Inl err, p1) \<Rightarrow> (Inl err, p1)
           | (Inr r, p1) \<Rightarrow> (Inr r, p1\<lparr> roundCache := lru_Add x r (roundCache p1) \<rparr>)))"

primrec round' ::
  "nat \<Rightarrow> 's Env \<Rightarrow> string \<Rightarrow> 's Poset \<Rightarrow> (error + int64) \<times> 's Poset" where
  "round' 0 S = roundCached (\<lambda>x p. (Inl OutOfFuel, p))"
| "round' (Suc n) S = roundCached (round2 n S (round' n S))"

section \<open>Insertion\<close>

text \<open>\<open>checkSelfParent\<close>: the self-parent is the creator's last known event.\<close>

definition checkSelfParent :: "'s Env \<Rightarrow> 's Poset \<Rightarrow> Event \<Rightarrow> error option" where
  "checkSelfParent S p event =
     (case st_LastEventFrom S (store p) (Event_Creator event) of
        (creatorLastKnown, isRoot, err) \<Rightarrow>
          (case err of
             Some e \<Rightarrow> Some e
           | None \<Rightarrow>
               if Event_SelfParent event = creatorLastKnown then None
               else Some (Failed ''self-parent not last known event by creator'')))"

text \<open>\<open>checkOtherParent\<close>: the other-parent is known, in the store or in the root.\<close>

definition checkOtherParent :: "'s Env \<Rightarrow> 's Poset \<Rightarrow> Event \<Rightarrow> error option" where
  "checkOtherParent S p event =
     (let otherParent = Event_OtherParent event
      in if otherParent \<noteq> [] then
           (case st_GetEvent S (store p) otherParent of
              Inr e \<Rightarrow> None
            | Inl err0 \<Rightarrow>
                (case st_GetRoot S (store p) (Event_Creator event) of
                   Inl err \<Rightarrow> Some err
                 | Inr rt \<Rightarrow>
                     (case map_of (Others rt) (Event_Hex S event) of
                        Some other \<Rightarrow>
                          if REHash other = Event_OtherParent event then None
                          else Some (Failed ''other-parent not known'')
                      | None \<Rightarrow> Some (Failed ''other-parent not known''))))
         else None)"

text \<open>
  \<open>setWireInfo\<close>: the integer shortcuts of the parents. A participant missing from
  \<open>ByPubKey\<close> is a nil pointer, and reading its ID panics.
\<close>

definition setWireInfo :: "'s Env \<Rightarrow> 's Poset \<Rightarrow> Event \<Rightarrow> error + Event" where
  "setWireInfo S p event =
     (case (case st_LastEventFrom S (store p) (Event_Creator event) of
              (lf, isRoot, err) \<Rightarrow>
                if isRoot \<and> lf = Event_SelfParent event then
                  (case st_GetRoot S (store p) (Event_Creator event) of
                     Inl err \<Rightarrow> Inl err
                   | Inr rt \<Rightarrow> Inr (REIndex (SelfParent rt)))
                else
                  (case st_GetEvent S (store p) (Event_SelfParent event) of
                     Inl err \<Rightarrow> Inl err
                   | Inr selfParent \<Rightarrow> Inr (Event_Index selfParent))) of
        Inl err \<Rightarrow> Inl err
      | Inr spIndex \<Rightarrow>
     (case (if Event_OtherParent event \<noteq> [] then
              (case st_GetRoot S (store p) (Event_Creator event) of
                 Inl err \<Rightarrow> Inl err
               | Inr rt \<Rightarrow>
                   (case (case map_of (Others rt) (Event_Hex S event) of
                            Some other \<Rightarrow>
                              if REHash other = Event_OtherParent event then Some other else None
                          | None \<Rightarrow> None) of
                      Some other \<Rightarrow> Inr (RECreatorID other, REIndex other)
                    | None \<Rightarrow>
                        (case st_GetEvent S (store p) (Event_OtherParent event) of
                           Inl err \<Rightarrow> Inl err
                         | Inr otherParent \<Rightarrow>
                             (case ByPubKey (participants p) (Event_Creator otherParent) of
                                None \<Rightarrow> Inl Panic
                              | Some peer \<Rightarrow> Inr (ID peer, Event_Index otherParent)))))
            else Inr (- 1, - 1)) of
        Inl err \<Rightarrow> Inl err
      | Inr (opCreatorID, opIndex) \<Rightarrow>
          (case ByPubKey (participants p) (Event_Creator event) of
             None \<Rightarrow> Inl Panic
           | Some peer \<Rightarrow> Inr (SetWireInfo event spIndex opCreatorID opIndex (ID peer)))))"

text \<open>
  \<open>InsertEvent\<close> attempts to insert an event in the DAG: it verifies the signature,
  checks that the ancestors are known, and prevents the introduction of forks. The
  result is the error (if any) and the engine as the call leaves it.
\<close>

definition InsertEvent ::
  "'s Env \<Rightarrow> Event \<Rightarrow> bool \<Rightarrow> 's Poset \<Rightarrow> error option \<times> 's Poset" where
  "InsertEvent S event swi p =
     (case Event_Verify S event of
        (ok, err) \<Rightarrow>
          if \<not> ok then
            (case err of
               Some e \<Rightarrow> (Some e, p)
             | None \<Rightarrow> (Some (Failed ''invalid Event signature''), p))
          else
     (case checkSelfParent S p event of
        Some e \<Rightarrow> (Some (wrapErr ''CheckSelfParent'' e), p)
      | None \<Rightarrow>
     (case checkOtherParent S p event of
        Some e \<Rightarrow> (Some (wrapErr ''CheckOtherParent'' e), p)
      | None \<Rightarrow>
     (let event1 = event\<lparr> ev_topologicalIndex := topologicalIndex p \<rparr>;
          p1 = p\<lparr> topologicalIndex := topologicalIndex p + 1 \<rparr>
      in case (if swi then setWireInfo S p1 event1 else Inr event1) of
           Inl e \<Rightarrow> (Some (wrapErr ''SetWireInfo'' e), p1)
         | Inr event2 \<Rightarrow>
             (case st_SetEvent S (store p1) event2 of
                (Some e, st') \<Rightarrow> (Some (wrapErr ''SetEvent'' e), p1\<lparr> store := st' \<rparr>)
              | (None, st') \<Rightarrow>
                  (let p2 = p1\<lparr> store := st',
                                 undeterminedEvents :=
                                   undeterminedEvents p1 @ [Event_Hex S event2] \<rparr>;
                       p3 = (if IsLoaded event2
                             then p2\<lparr> pendingLoadedEvents := pendingLoadedEvents p2 + 1 \<rparr>
                             else p2)
                   in (None, p3\<lparr> sigPool := sigPool p3 @ Event_BlockSignatures event2 \<rparr>)))))))"

fun insertEvents ::
  "'s Env \<Rightarrow> Event list \<Rightarrow> 's Poset \<Rightarrow> error option \<times> 's Poset" where
  "insertEvents S [] p = (None, p)"
| "insertEvents S (ev # evs) p =
     (case InsertEvent S ev False p of
        (Some e, p1) \<Rightarrow> (Some e, p1)
      | (None, p1) \<Rightarrow> insertEvents S evs p1)"

section \<open>Reset\<close>

text \<open>
  \<open>Reset\<close> clears the engine and restarts it from a block and a frame. The root of
  position \<open>id\<close> in the frame belongs to the participant of position \<open>id\<close>; a frame
  with more roots than there are participants indexes out of range, a panic.
\<close>

fun rootMapOf :: "Peer list \<Rightarrow> Root list \<Rightarrow> error + (string \<times> Root) list" where
  "rootMapOf ps [] = Inr []"
| "rootMapOf [] (r # rs) = Inl Panic"
| "rootMapOf (q # ps) (r # rs) =
     (case rootMapOf ps rs of
        Inl e \<Rightarrow> Inl e
      | Inr m \<Rightarrow> Inr ((PubKeyHex q, r) # filter (\<lambda>kv. fst kv \<noteq> PubKeyHex q) m))"

definition Reset :: "'s Env \<Rightarrow> Block \<Rightarrow> Frame \<Rightarrow> 's Poset \<Rightarrow> error option \<times> 's Poset" where
  "Reset S block frame p =
     (let p1 = p\<lparr> lastConsensusRound := None, firstConsensusRound := None,
                   anchorBlock := None, undeterminedEvents := [], pendingRounds := [],
                   pendingLoadedEvents := 0, topologicalIndex := 0 \<rparr>;
          cacheSize = st_CacheSize S (store p1)
      in if cacheSize \<le> 0 then (Some (Fatal ''Unable to reset Poset.ancestorCache''), p1)
         else
     (let p2 = p1\<lparr> ancestorCache := \<lparr> cap = nat cacheSize, entries = [] \<rparr>,
                    selfAncestorCache := \<lparr> cap = nat cacheSize, entries = [] \<rparr>,
                    stronglySeeCache := \<lparr> cap = nat cacheSize, entries = [] \<rparr>,
                    roundCache := \<lparr> cap = nat cacheSize, entries = [] \<rparr> \<rparr>
      in case rootMapOf (ToPeerSlice (participants p2)) (Roots frame) of
           Inl e \<Rightarrow> (Some e, p2)
         | Inr rootMap \<Rightarrow>
     (case st_Reset S (store p2) rootMap of
        (Some e, st1) \<Rightarrow> (Some e, p2\<lparr> store := st1 \<rparr>)
      | (None, st1) \<Rightarrow>
     (case st_SetBlock S st1 block of
        (Some e, st2) \<Rightarrow> (Some e, p2\<lparr> store := st2 \<rparr>)
      | (None, st2) \<Rightarrow>
          insertEvents S (FrameEvents frame)
            (setLastConsensusRound (BlockRoundReceived block) (p2\<lparr> store := st2 \<rparr>))))))"

section \<open>The signature pool\<close>


definition processSig ::
  "'s Env \<Rightarrow> nat \<Rightarrow> BlockSignature \<Rightarrow> int64 set \<Rightarrow> 's Poset \<Rightarrow>
   (error + int64 set) \<times> 's Poset" where
  "processSig S i bs processed p =
     (let validatorHex = ''0x'' @ hexUpper (Validator bs)
      in case ByPubKey (participants p) validatorHex of
           None \<Rightarrow> (Inr processed, p)
         | Some peer \<Rightarrow>
             if (case anchorBlock p of None \<Rightarrow> True | Some a \<Rightarrow> a <s BSIndex bs) then
               (case st_GetBlock S (store p) (BSIndex bs) of
                  Inl err \<Rightarrow> (Inr processed, p)
                | Inr block \<Rightarrow>
                    (case BlockVerify S block bs of
                       Inl err \<Rightarrow> (Inl err, p)
                     | Inr valid \<Rightarrow>
                         if \<not> valid then (Inr processed, p)
                         else
                           (let block1 = SetSignature block bs;
                                p1 = p\<lparr> store := snd (st_SetBlock S (store p) block1) \<rparr>;
                                p2 = (if int (length (Signatures block1)) > trustCount p1 \<and>
                                         (case anchorBlock p1 of
                                            None \<Rightarrow> True
                                          | Some a \<Rightarrow> a <s BlockIndex block1)
                                      then p1\<lparr> anchorBlock := Some (BlockIndex block1) \<rparr>
                                      else p1)
                            in (Inr (insert (of_nat i) processed), p2))))
             else (Inr (insert (of_nat i) processed), p))"

fun sigPoolLoop ::
  "'s Env \<Rightarrow> nat \<Rightarrow> BlockSignature list \<Rightarrow> int64 set \<Rightarrow> 's Poset \<Rightarrow>
   error option \<times> int64 set \<times> 's Poset" where
  "sigPoolLoop S i [] processed p = (None, processed, p)"
| "sigPoolLoop S i (bs # rest) processed p =
     (case processSig S i bs processed p of
        (Inl err, p1) \<Rightarrow> (Some err, processed, p1)
      | (Inr processed1, p1) \<Rightarrow> sigPoolLoop S (Suc i) rest processed1 p1)"


section \<open>Fame\<close>

text \<open>
  \<open>DecideFame\<close> tells a normal round from a coin round with
  \<open>math.Mod(float64(diff), float64(n)) > 0\<close>. \<open>float64_of_int\<close> is the value of the
  conversion \<open>float64(i)\<close>: exact below \<open>2^53\<close>, rounded to 53 significant bits (ties
  to even) above. \<open>math.Mod\<close> of two such values is exact, is NaN for a zero divisor,
  and has the sign of the dividend.
\<close>

fun f64shift :: "nat \<Rightarrow> int \<Rightarrow> nat" where
  "f64shift 0 a = 0"
| "f64shift (Suc k) a = (if a < 2 ^ 53 then 0 else Suc (f64shift k (a div 2)))"

definition float64_of_int :: "int \<Rightarrow> int" where
  "float64_of_int i =
     (let a = \<bar>i\<bar>;
          e = f64shift 64 a;
          q = a div 2 ^ e;
          r = a mod 2 ^ e;
          q' = (if 2 * r > 2 ^ e \<or> (2 * r = 2 ^ e \<and> odd q) then q + 1 else q)
      in sgn i * q' * 2 ^ e)"

definition isNormalRound :: "int64 \<Rightarrow> int \<Rightarrow> bool" where
  "isNormalRound diff n =
     (let fd = float64_of_int (sint diff); fn = float64_of_int n
      in fn \<noteq> 0 \<and> fd > 0 \<and> fd mod \<bar>fn\<bar> > 0)"

text \<open>
  The vote map \<open>votes[y][x]\<close>; a missing entry reads as false. \<open>setVote\<close> is the
  closure of the same name.
\<close>

type_synonym votes = "string \<times> string \<Rightarrow> bool option"

definition setVote :: "votes \<Rightarrow> string \<Rightarrow> string \<Rightarrow> bool \<Rightarrow> votes" where
  "setVote vs x y vote = vs((x, y) \<mapsto> vote)"

definition getVote :: "votes \<Rightarrow> string \<Rightarrow> string \<Rightarrow> bool" where
  "getVote vs w x = (case vs (w, x) of Some b \<Rightarrow> b | None \<Rightarrow> False)"

fun stronglySeen ::
  "nat \<Rightarrow> 's Env \<Rightarrow> string \<Rightarrow> string list \<Rightarrow> 's Poset \<Rightarrow> (error + string list) \<times> 's Poset" where
  "stronglySeen n S y [] p = (Inr [], p)"
| "stronglySeen n S y (w # ws) p =
     (case stronglySee n S y w p of
        (Inl err, p1) \<Rightarrow> (Inl err, p1)
      | (Inr ss, p1) \<Rightarrow>
          (case stronglySeen n S y ws p1 of
             (Inl err, p2) \<Rightarrow> (Inl err, p2)
           | (Inr l, p2) \<Rightarrow> (Inr (if ss then w # l else l), p2)))"

definition countYays :: "votes \<Rightarrow> string list \<Rightarrow> string \<Rightarrow> int" where
  "countYays vs ssWitnesses x = int (length (filter (\<lambda>w. getVote vs w x) ssWitnesses))"

definition countNays :: "votes \<Rightarrow> string list \<Rightarrow> string \<Rightarrow> int" where
  "countNays vs ssWitnesses x = int (length (filter (\<lambda>w. \<not> getVote vs w x) ssWitnesses))"

text \<open>
  \<open>castVote\<close> is the body of the loop over the witnesses y of round j, for the
  undecided witness x of round \<open>roundIndex\<close>: the result is the error, or whether the
  vote loop is left (\<open>break VoteLoop\<close>), with the votes, the round and the engine.
\<close>

definition castVote ::
  "nat \<Rightarrow> 's Env \<Rightarrow> int64 \<Rightarrow> string \<Rightarrow> int64 \<Rightarrow> string \<Rightarrow> votes \<Rightarrow> RoundInfo \<Rightarrow> 's Poset \<Rightarrow>
   (error + bool) \<times> votes \<times> RoundInfo \<times> 's Poset" where
  "castVote n S roundIndex x j y vs roundInfo p =
     (let diff = j - roundIndex
      in if diff = 1 then
           (case see n S y x p of
              (Inl err, p1) \<Rightarrow> (Inl err, vs, roundInfo, p1)
            | (Inr ycx, p1) \<Rightarrow> (Inr False, setVote vs y x ycx, roundInfo, p1))
         else
           (case stronglySeen n S y (st_RoundWitnesses S (store p) (j - 1)) p of
              (Inl err, p1) \<Rightarrow> (Inl err, vs, roundInfo, p1)
            | (Inr ssWitnesses, p1) \<Rightarrow>
                (let yays = countYays vs ssWitnesses x;
                     nays = countNays vs ssWitnesses x;
                     v = (yays \<ge> nays);
                     t = (if yays \<ge> nays then yays else nays)
                 in if isNormalRound diff (Len (participants p1)) then
                      (if t \<ge> superMajority p1
                       then (Inr True, setVote vs y x v, SetFame roundInfo x v, p1)
                       else (Inr False, setVote vs y x v, roundInfo, p1))
                    else
                      (if t \<ge> superMajority p1
                       then (Inr False, setVote vs y x v, roundInfo, p1)
                       else
                         (case middleBit y of
                            Inl err \<Rightarrow> (Inl err, vs, roundInfo, p1)
                          | Inr b \<Rightarrow> (Inr False, setVote vs y x b, roundInfo, p1))))))"

fun voteWitnesses ::
  "nat \<Rightarrow> 's Env \<Rightarrow> int64 \<Rightarrow> string \<Rightarrow> int64 \<Rightarrow> string list \<Rightarrow> votes \<Rightarrow> RoundInfo \<Rightarrow> 's Poset \<Rightarrow>
   (error + bool) \<times> votes \<times> RoundInfo \<times> 's Poset" where
  "voteWitnesses n S roundIndex x j [] vs roundInfo p = (Inr False, vs, roundInfo, p)"
| "voteWitnesses n S roundIndex x j (y # ys) vs roundInfo p =
     (case castVote n S roundIndex x j y vs roundInfo p of
        (Inl err, vs1, ri1, p1) \<Rightarrow> (Inl err, vs1, ri1, p1)
      | (Inr brk, vs1, ri1, p1) \<Rightarrow>
          if brk then (Inr True, vs1, ri1, p1)
          else voteWitnesses n S roundIndex x j ys vs1 ri1 p1)"

text \<open>
  The loop \<open>for j := roundIndex + 1; j <= LastRound(); j++\<close>. Its counter is an
  \<open>int64\<close>, so the loop has no bound of its own when the last round is the largest
  \<open>int64\<close>: the first argument is the fuel.
\<close>

fun voteLoop ::
  "nat \<Rightarrow> nat \<Rightarrow> 's Env \<Rightarrow> int64 \<Rightarrow> string \<Rightarrow> int64 \<Rightarrow> votes \<Rightarrow> RoundInfo \<Rightarrow> 's Poset \<Rightarrow>
   error option \<times> votes \<times> RoundInfo \<times> 's Poset" where
  "voteLoop 0 n S roundIndex x j vs roundInfo p =
     (if j \<le>s st_LastRound S (store p) then (Some OutOfFuel, vs, roundInfo, p)
      else (None, vs, roundInfo, p))"
| "voteLoop (Suc k) n S roundIndex x j vs roundInfo p =
     (if j \<le>s st_LastRound S (store p) then
        (case voteWitnesses n S roundIndex x j (st_RoundWitnesses S (store p) j) vs roundInfo p of
           (Inl err, vs1, ri1, p1) \<Rightarrow> (Some err, vs1, ri1, p1)
         | (Inr brk, vs1, ri1, p1) \<Rightarrow>
             if brk then (None, vs1, ri1, p1)
             else voteLoop k n S roundIndex x (j + 1) vs1 ri1 p1)
      else (None, vs, roundInfo, p))"

fun decideWitnesses ::
  "nat \<Rightarrow> 's Env \<Rightarrow> int64 \<Rightarrow> string list \<Rightarrow> votes \<Rightarrow> RoundInfo \<Rightarrow> 's Poset \<Rightarrow>
   error option \<times> votes \<times> RoundInfo \<times> 's Poset" where
  "decideWitnesses n S roundIndex [] vs roundInfo p = (None, vs, roundInfo, p)"
| "decideWitnesses n S roundIndex (x # xs) vs roundInfo p =
     (if IsDecided roundInfo x then decideWitnesses n S roundIndex xs vs roundInfo p
      else
        (case voteLoop n n S roundIndex x (roundIndex + 1) vs roundInfo p of
           (Some err, vs1, ri1, p1) \<Rightarrow> (Some err, vs1, ri1, p1)
         | (None, vs1, ri1, p1) \<Rightarrow> decideWitnesses n S roundIndex xs vs1 ri1 p1))"

fun decideRounds ::
  "nat \<Rightarrow> 's Env \<Rightarrow> pendingRound list \<Rightarrow> votes \<Rightarrow> int64 set \<Rightarrow> 's Poset \<Rightarrow>
   error option \<times> int64 set \<times> 's Poset" where
  "decideRounds n S [] vs decidedRounds p = (None, decidedRounds, p)"
| "decideRounds n S (r # rs) vs decidedRounds p =
     (case st_GetRound S (store p) (PRIndex r) of
        Inl err \<Rightarrow> (Some err, decidedRounds, p)
      | Inr roundInfo \<Rightarrow>
          (case decideWitnesses n S (PRIndex r) (Witnesses roundInfo) vs roundInfo p of
             (Some err, vs1, ri1, p1) \<Rightarrow> (Some err, decidedRounds, p1)
           | (None, vs1, ri1, p1) \<Rightarrow>
               (case st_SetRound S (store p1) (PRIndex r) ri1 of
                  (Some err, st') \<Rightarrow> (Some err, decidedRounds, p1\<lparr> store := st' \<rparr>)
                | (None, st') \<Rightarrow>
                    decideRounds n S rs vs1
                      (if WitnessesDecided ri1 then insert (PRIndex r) decidedRounds
                       else decidedRounds)
                      (p1\<lparr> store := st' \<rparr>))))"

definition updatePendingRounds :: "int64 set \<Rightarrow> 's Poset \<Rightarrow> 's Poset" where
  "updatePendingRounds decidedRounds p =
     p\<lparr> pendingRounds :=
          map (\<lambda>ur. if PRIndex ur \<in> decidedRounds then ur\<lparr> Decided := True \<rparr> else ur)
            (pendingRounds p) \<rparr>"

text \<open>\<open>DecideFame\<close> decides if witnesses are famous.\<close>

definition DecideFame :: "nat \<Rightarrow> 's Env \<Rightarrow> 's Poset \<Rightarrow> error option \<times> 's Poset" where
  "DecideFame n S p =
     (case decideRounds n S (pendingRounds p) Map.empty {} p of
        (Some err, decidedRounds, p1) \<Rightarrow> (Some err, p1)
      | (None, decidedRounds, p1) \<Rightarrow> (None, updatePendingRounds decidedRounds p1))"

section \<open>Round received\<close>

fun famousSeeing ::
  "nat \<Rightarrow> 's Env \<Rightarrow> string \<Rightarrow> string list \<Rightarrow> 's Poset \<Rightarrow> (error + string list) \<times> 's Poset" where
  "famousSeeing n S x [] p = (Inr [], p)"
| "famousSeeing n S x (w # ws) p =
     (case see n S w x p of
        (Inl err, p1) \<Rightarrow> (Inl err, p1)
      | (Inr sees, p1) \<Rightarrow>
          (case famousSeeing n S x ws p1 of
             (Inl err, p2) \<Rightarrow> (Inl err, p2)
           | (Inr l, p2) \<Rightarrow> (Inr (if sees then w # l else l), p2)))"

text \<open>
  What the loop over the rounds \<open>i\<close> of \<open>DecideRoundReceived\<close> finds for an event:
  nothing (the event stays undetermined), the round in which it is received, or that
  the event is dropped from the queue with no round (the branch taken after a Reset,
  when a round is missing below the last consensus round).
\<close>

datatype scanResult = NotReceived | ReceivedAt int64 | Dropped

definition setReceived ::
  "'s Env \<Rightarrow> string \<Rightarrow> int64 \<Rightarrow> RoundInfo \<Rightarrow> 's Poset \<Rightarrow> error option \<times> 's Poset" where
  "setReceived S x i tr p =
     (case st_GetEvent S (store p) x of
        Inl err \<Rightarrow> (Some err, p)
      | Inr ex \<Rightarrow>
          (case st_SetEvent S (store p) (ex\<lparr> ev_roundReceived := Some i \<rparr>) of
             (Some err, st1) \<Rightarrow> (Some err, p\<lparr> store := st1 \<rparr>)
           | (None, st1) \<Rightarrow>
               (case st_SetRound S st1 i (SetConsensusEvent tr x) of
                  (Some err, st2) \<Rightarrow> (Some err, p\<lparr> store := st2 \<rparr>)
                | (None, st2) \<Rightarrow> (None, p\<lparr> store := st2 \<rparr>))))"

definition scanRound ::
  "nat \<Rightarrow> 's Env \<Rightarrow> string \<Rightarrow> int64 \<Rightarrow> int64 \<Rightarrow> 's Poset \<Rightarrow>
   (error + scanResult option) \<times> 's Poset" where
  "scanRound n S x r i p =
     (case st_GetRound S (store p) i of
        Inl err \<Rightarrow>
          (case lastConsensusRound p of
             Some lcr \<Rightarrow> if r <s lcr then (Inr (Some Dropped), p) else (Inl err, p)
           | None \<Rightarrow> (Inl err, p))
      | Inr tr \<Rightarrow>
          if \<not> WitnessesDecided tr then (Inr (Some NotReceived), p)
          else
            (let fws = FamousWitnesses tr
             in case famousSeeing n S x fws p of
                  (Inl err, p1) \<Rightarrow> (Inl err, p1)
                | (Inr s, p1) \<Rightarrow>
                    if length s = length fws \<and> length s > 0 then
                      (case setReceived S x i tr p1 of
                         (Some err, p2) \<Rightarrow> (Inl err, p2)
                       | (None, p2) \<Rightarrow> (Inr (Some (ReceivedAt i)), p2))
                    else (Inr None, p1)))"

text \<open>
  The loop \<open>for i := r + 1; i <= LastRound(); i++\<close>, with fuel for the same reason as
  the vote loop. \<open>scanRound\<close> is its body: \<open>Some\<close> result leaves the loop, \<open>None\<close>
  goes on with the next round.
\<close>

fun scanRounds ::
  "nat \<Rightarrow> nat \<Rightarrow> 's Env \<Rightarrow> string \<Rightarrow> int64 \<Rightarrow> int64 \<Rightarrow> 's Poset \<Rightarrow>
   (error + scanResult) \<times> 's Poset" where
  "scanRounds 0 n S x r i p =
     (if i \<le>s st_LastRound S (store p) then (Inl OutOfFuel, p) else (Inr NotReceived, p))"
| "scanRounds (Suc k) n S x r i p =
     (if i \<le>s st_LastRound S (store p) then
        (case scanRound n S x r i p of
           (Inl err, p1) \<Rightarrow> (Inl err, p1)
         | (Inr (Some res), p1) \<Rightarrow> (Inr res, p1)
         | (Inr None, p1) \<Rightarrow> scanRounds k n S x r (i + 1) p1)
      else (Inr NotReceived, p))"

definition decideEvent ::
  "nat \<Rightarrow> 's Env \<Rightarrow> string \<Rightarrow> 's Poset \<Rightarrow> (error + scanResult) \<times> 's Poset" where
  "decideEvent n S x p =
     (case round' n S x p of
        (Inl err, p1) \<Rightarrow> (Inl err, p1)
      | (Inr r, p1) \<Rightarrow> scanRounds n n S x r (r + 1) p1)"

fun decideEvents ::
  "nat \<Rightarrow> 's Env \<Rightarrow> string list \<Rightarrow> string list \<Rightarrow> 's Poset \<Rightarrow>
   (error + string list) \<times> 's Poset" where
  "decideEvents n S [] newUndeterminedEvents p = (Inr newUndeterminedEvents, p)"
| "decideEvents n S (x # xs) newUndeterminedEvents p =
     (case decideEvent n S x p of
        (Inl err, p1) \<Rightarrow> (Inl err, p1)
      | (Inr res, p1) \<Rightarrow>
          decideEvents n S xs
            (if res = NotReceived then newUndeterminedEvents @ [x] else newUndeterminedEvents) p1)"

text \<open>
  \<open>DecideRoundReceived\<close> assigns a RoundReceived to undetermined events when they
  reach consensus.
\<close>

definition DecideRoundReceived :: "nat \<Rightarrow> 's Env \<Rightarrow> 's Poset \<Rightarrow> error option \<times> 's Poset" where
  "DecideRoundReceived n S p =
     (case decideEvents n S (undeterminedEvents p) [] p of
        (Inl err, p1) \<Rightarrow> (Some err, p1)
      | (Inr newUndeterminedEvents, p1) \<Rightarrow>
          (None, p1\<lparr> undeterminedEvents := newUndeterminedEvents \<rparr>))"

section \<open>Frames\<close>

definition createSelfParentRootEvent ::
  "nat \<Rightarrow> 's Env \<Rightarrow> Event \<Rightarrow> 's Poset \<Rightarrow> (error + RootEvent) \<times> 's Poset" where
  "createSelfParentRootEvent n S ev p =
     (let sp = Event_SelfParent ev
      in case lamportTimestamp n S sp p of
           (Inl err, p1) \<Rightarrow> (Inl err, p1)
         | (Inr spLT, p1) \<Rightarrow>
             (case round' n S sp p1 of
                (Inl err, p2) \<Rightarrow> (Inl err, p2)
              | (Inr spRound, p2) \<Rightarrow>
                  (case ByPubKey (participants p2) (Event_Creator ev) of
                     None \<Rightarrow> (Inl Panic, p2)
                   | Some peer \<Rightarrow>
                       (Inr \<lparr> REHash = sp, RECreatorID = ID peer,
                              REIndex = Event_Index ev - 1,
                              RELamportTimestamp = spLT, RERound = spRound \<rparr>, p2))))"

definition createOtherParentRootEvent ::
  "nat \<Rightarrow> 's Env \<Rightarrow> Event \<Rightarrow> 's Poset \<Rightarrow> (error + RootEvent) \<times> 's Poset" where
  "createOtherParentRootEvent n S ev p =
     (let op = Event_OtherParent ev
      in case st_GetRoot S (store p) (Event_Creator ev) of
           Inl err \<Rightarrow> (Inl err, p)
         | Inr rt \<Rightarrow>
             (case (case map_of (Others rt) (Event_Hex S ev) of
                      Some other \<Rightarrow> if REHash other = op then Some other else None
                    | None \<Rightarrow> None) of
                Some other \<Rightarrow> (Inr other, p)
              | None \<Rightarrow>
                  (case st_GetEvent S (store p) op of
                     Inl err \<Rightarrow> (Inl err, p)
                   | Inr otherParent \<Rightarrow>
                       (case lamportTimestamp n S op p of
                          (Inl err, p1) \<Rightarrow> (Inl err, p1)
                        | (Inr opLT, p1) \<Rightarrow>
                            (case round' n S op p1 of
                               (Inl err, p2) \<Rightarrow> (Inl err, p2)
                             | (Inr opRound, p2) \<Rightarrow>
                                 (case ByPubKey (participants p2) (Event_Creator otherParent) of
                                    None \<Rightarrow> (Inl Panic, p2)
                                  | Some peer \<Rightarrow>
                                      (Inr \<lparr> REHash = op, RECreatorID = ID peer,
                                             REIndex = Event_Index otherParent,
                                             RELamportTimestamp = opLT,
                                             RERound = opRound \<rparr>, p2)))))))"

definition createRoot ::
  "nat \<Rightarrow> 's Env \<Rightarrow> Event \<Rightarrow> 's Poset \<Rightarrow> (error + Root) \<times> 's Poset" where
  "createRoot n S ev p =
     (case round' n S (Event_Hex S ev) p of
        (Inl err, p1) \<Rightarrow> (Inl err, p1)
      | (Inr evRound, p1) \<Rightarrow>
          (case createSelfParentRootEvent n S ev p1 of
             (Inl err, p2) \<Rightarrow> (Inl err, p2)
           | (Inr selfParentRootEvent, p2) \<Rightarrow>
               if Event_OtherParent ev \<noteq> [] then
                 (case createOtherParentRootEvent n S ev p2 of
                    (Inl err, p3) \<Rightarrow> (Inl err, p3)
                  | (Inr opre, p3) \<Rightarrow>
                      (Inr \<lparr> NextRound = evRound, SelfParent = selfParentRootEvent,
                             Others = [(Event_Hex S ev, opre)] \<rparr>, p3))
               else
                 (Inr \<lparr> NextRound = evRound, SelfParent = selfParentRootEvent,
                        Others = [] \<rparr>, p2)))"

text \<open>
  \<open>ByLamportTimestamp.Less\<close>: by Lamport timestamp, ties broken by the R of the
  signature. An undecodable signature gives a nil \<open>big.Int\<close>, and comparing it panics.
\<close>

definition lessByLamportTimestamp :: "'s Env \<Rightarrow> Event \<Rightarrow> Event \<Rightarrow> error + bool" where
  "lessByLamportTimestamp S a b =
     (let it = (case ev_lamportTimestamp a of Some t \<Rightarrow> t | None \<Rightarrow> - 1);
          jt = (case ev_lamportTimestamp b of Some t \<Rightarrow> t | None \<Rightarrow> - 1)
      in if it \<noteq> jt then Inr (it <s jt)
         else
           (case (DecodeSignature S (Signature a), DecodeSignature S (Signature b)) of
              (Inr (wsi, si), Inr (wsj, sj)) \<Rightarrow> Inr (wsi < wsj)
            | _ \<Rightarrow> Inl Panic))"

text \<open>
  \<open>sort.Stable\<close>: the stable order under \<open>Less\<close>, built as an insertion sort (which
  pairs the library compares is its own choice; the model compares as insertion does).
\<close>

fun insertStable :: "'s Env \<Rightarrow> Event \<Rightarrow> Event list \<Rightarrow> error + Event list" where
  "insertStable S e [] = Inr [e]"
| "insertStable S e (y # ys) =
     (case lessByLamportTimestamp S y e of
        Inl err \<Rightarrow> Inl err
      | Inr b \<Rightarrow>
          if b then (case insertStable S e ys of Inl err \<Rightarrow> Inl err | Inr l \<Rightarrow> Inr (y # l))
          else Inr (e # y # ys))"

fun sortStable :: "'s Env \<Rightarrow> Event list \<Rightarrow> error + Event list" where
  "sortStable S [] = Inr []"
| "sortStable S (e # es) =
     (case sortStable S es of Inl err \<Rightarrow> Inl err | Inr l \<Rightarrow> insertStable S e l)"

fun getEvents :: "'s Env \<Rightarrow> 's \<Rightarrow> string list \<Rightarrow> error + Event list" where
  "getEvents S st [] = Inr []"
| "getEvents S st (eh # ehs) =
     (case st_GetEvent S st eh of
        Inl err \<Rightarrow> Inl err
      | Inr e \<Rightarrow> (case getEvents S st ehs of Inl err \<Rightarrow> Inl err | Inr l \<Rightarrow> Inr (e # l)))"

text \<open>The first loop of \<open>GetFrame\<close>: a root for the first event of every creator.\<close>

fun frameRoots ::
  "nat \<Rightarrow> 's Env \<Rightarrow> Event list \<Rightarrow> (string \<times> Root) list \<Rightarrow> 's Poset \<Rightarrow>
   (error + (string \<times> Root) list) \<times> 's Poset" where
  "frameRoots n S [] roots p = (Inr roots, p)"
| "frameRoots n S (ev # evs) roots p =
     (case map_of roots (Event_Creator ev) of
        Some r \<Rightarrow> frameRoots n S evs roots p
      | None \<Rightarrow>
          (case createRoot n S ev p of
             (Inl err, p1) \<Rightarrow> (Inl err, p1)
           | (Inr rt, p1) \<Rightarrow> frameRoots n S evs (alist_upd (Event_Creator ev) rt roots) p1))"

definition zeroRoot :: Root where
  "zeroRoot = \<lparr> NextRound = 0,
                SelfParent = \<lparr> REHash = [], RECreatorID = 0, REIndex = 0,
                               RELamportTimestamp = 0, RERound = 0 \<rparr>,
                Others = [] \<rparr>"

text \<open>
  The second loop: a participant with no event in the frame gets the root of its last
  consensus event, or its current root. The error of \<open>GetRoot\<close> is dropped there, and
  the zero Root stands in.
\<close>

fun absentRoots ::
  "nat \<Rightarrow> 's Env \<Rightarrow> string list \<Rightarrow> (string \<times> Root) list \<Rightarrow> 's Poset \<Rightarrow>
   (error + (string \<times> Root) list) \<times> 's Poset" where
  "absentRoots n S [] roots p = (Inr roots, p)"
| "absentRoots n S (peer # peers) roots p =
     (case map_of roots peer of
        Some r \<Rightarrow> absentRoots n S peers roots p
      | None \<Rightarrow>
          (case st_LastConsensusEventFrom S (store p) peer of
             (lastConsensusEventHash, isRoot, err) \<Rightarrow>
               (case err of
                  Some e \<Rightarrow> (Inl e, p)
                | None \<Rightarrow>
                    if isRoot then
                      absentRoots n S peers
                        (alist_upd peer
                           (case st_GetRoot S (store p) peer of Inl e \<Rightarrow> zeroRoot | Inr rt \<Rightarrow> rt)
                           roots) p
                    else
                      (case st_GetEvent S (store p) lastConsensusEventHash of
                         Inl e \<Rightarrow> (Inl e, p)
                       | Inr lastConsensusEvent \<Rightarrow>
                           (case createRoot n S lastConsensusEvent p of
                              (Inl e, p1) \<Rightarrow> (Inl e, p1)
                            | (Inr rt, p1) \<Rightarrow>
                                absentRoots n S peers (alist_upd peer rt roots) p1)))))"

text \<open>
  The third loop: an event whose other-parent is outside of the frame gets an entry in
  the Others of its creator's root. A creator with no root is a nil pointer there.
\<close>

fun frameOthers ::
  "nat \<Rightarrow> 's Env \<Rightarrow> Event list \<Rightarrow> string set \<Rightarrow> (string \<times> Root) list \<Rightarrow> 's Poset \<Rightarrow>
   (error + (string \<times> Root) list) \<times> 's Poset" where
  "frameOthers n S [] treated roots p = (Inr roots, p)"
| "frameOthers n S (ev # evs) treated roots p =
     (let treated1 = insert (Event_Hex S ev) treated;
          otherParent = Event_OtherParent ev
      in if otherParent \<noteq> [] \<and> otherParent \<notin> treated1 then
           (case map_of roots (Event_Creator ev) of
              None \<Rightarrow> (Inl Panic, p)
            | Some rt \<Rightarrow>
                if Event_SelfParent ev \<noteq> REHash (SelfParent rt) then
                  (case createOtherParentRootEvent n S ev p of
                     (Inl err, p1) \<Rightarrow> (Inl err, p1)
                   | (Inr other, p1) \<Rightarrow>
                       frameOthers n S evs treated1
                         (alist_upd (Event_Creator ev)
                            (rt\<lparr> Others := alist_upd (Event_Hex S ev) other (Others rt) \<rparr>)
                            roots) p1)
                else frameOthers n S evs treated1 roots p)
         else frameOthers n S evs treated1 roots p)"

text \<open>\<open>GetFrame\<close> computes the frame corresponding to a round-received.\<close>

definition GetFrame ::
  "nat \<Rightarrow> 's Env \<Rightarrow> int64 \<Rightarrow> 's Poset \<Rightarrow> (error + Frame) \<times> 's Poset" where
  "GetFrame n S roundReceived p =
     (case st_GetFrame S (store p) roundReceived of
        Inr frame \<Rightarrow> (Inr frame, p)
      | Inl err0 \<Rightarrow>
          if err0 \<noteq> KeyNotFound then (Inl err0, p)
          else
     (case st_GetRound S (store p) roundReceived of
        Inl err \<Rightarrow> (Inl err, p)
      | Inr rnd \<Rightarrow>
     (case getEvents S (store p) (ConsensusEvents rnd) of
        Inl err \<Rightarrow> (Inl err, p)
      | Inr unsorted \<Rightarrow>
     (case sortStable S unsorted of
        Inl err \<Rightarrow> (Inl err, p)
      | Inr events \<Rightarrow>
     (case frameRoots n S events [] p of
        (Inl err, p1) \<Rightarrow> (Inl err, p1)
      | (Inr roots1, p1) \<Rightarrow>
     (case absentRoots n S (ToPubKeySlice (participants p1)) roots1 p1 of
        (Inl err, p2) \<Rightarrow> (Inl err, p2)
      | (Inr roots2, p2) \<Rightarrow>
     (case frameOthers n S events {} roots2 p2 of
        (Inl err, p3) \<Rightarrow> (Inl err, p3)
      | (Inr roots3, p3) \<Rightarrow>
          (let orderedRoots =
                 map (\<lambda>peer. case map_of roots3 (PubKeyHex peer) of
                                Some rt \<Rightarrow> rt | None \<Rightarrow> zeroRoot)
                   (ToPeerSlice (participants p3));
               res = \<lparr> FrameRound = roundReceived, Roots = orderedRoots,
                       FrameEvents = events \<rparr>
           in case st_SetFrame S (store p3) res of
                (Some err, st') \<Rightarrow> (Inl err, p3\<lparr> store := st' \<rparr>)
              | (None, st') \<Rightarrow> (Inr res, p3\<lparr> store := st' \<rparr>)))))))))"

section \<open>Decided rounds\<close>

text \<open>The loop over the events of a frame in \<open>ProcessDecidedRounds\<close>.\<close>

fun commitEvents :: "'s Env \<Rightarrow> Event list \<Rightarrow> 's Poset \<Rightarrow> error option \<times> 's Poset" where
  "commitEvents S [] p = (None, p)"
| "commitEvents S (ev # evs) p =
     (case st_AddConsensusEvent S (store p) ev of
        (Some err, st') \<Rightarrow> (Some err, p\<lparr> store := st' \<rparr>)
      | (None, st') \<Rightarrow>
          (let p1 = p\<lparr> store := st',
                       consensusTransactions :=
                         consensusTransactions p + of_int (len_Transactions (Body ev)) \<rparr>;
               p2 = (if IsLoaded ev
                     then p1\<lparr> pendingLoadedEvents := pendingLoadedEvents p1 - 1 \<rparr>
                     else p1)
           in commitEvents S evs p2))"

definition commitFrame :: "'s Env \<Rightarrow> Frame \<Rightarrow> 's Poset \<Rightarrow> error option \<times> 's Poset" where
  "commitFrame S frame p =
     (if length (FrameEvents frame) > 0 then
        (case commitEvents S (FrameEvents frame) p of
           (Some err, p1) \<Rightarrow> (Some err, p1)
         | (None, p1) \<Rightarrow>
             (let lastBlockIndex = st_LastBlockIndex S (store p1)
              in case NewBlockFromFrame S (lastBlockIndex + 1) frame of
                   Inl err \<Rightarrow> (Some err, p1)
                 | Inr block \<Rightarrow>
                     if length (BlockTransactions block) > 0 then
                       (case st_SetBlock S (store p1) block of
                          (Some err, st') \<Rightarrow> (Some err, p1\<lparr> store := st' \<rparr>)
                        | (None, st') \<Rightarrow>
                            (None, p1\<lparr> store := st',
                                        commitCh :=
                                          (case commitCh p1 of
                                             None \<Rightarrow> None
                                           | Some sent \<Rightarrow> Some (sent @ [block])) \<rparr>))
                     else (None, p1)))
      else (None, p))"

text \<open>
  \<open>processRound\<close> is the body of the loop of \<open>ProcessDecidedRounds\<close> for the pending
  round r, past the test \<open>!r.Decided\<close>: it returns the error, or whether the round
  counts as processed (\<open>processedIndex++\<close>; the \<open>continue\<close> of a round equal to the
  last consensus round does not count).
\<close>

definition processRound ::
  "nat \<Rightarrow> 's Env \<Rightarrow> pendingRound \<Rightarrow> 's Poset \<Rightarrow> (error + bool) \<times> 's Poset" where
  "processRound n S r p =
     (if (case lastConsensusRound p of None \<Rightarrow> False | Some lcr \<Rightarrow> PRIndex r = lcr)
      then (Inr False, p)
      else
     (case GetFrame n S (PRIndex r) p of
        (Inl err, p1) \<Rightarrow> (Inl (wrapErr ''getting Frame'' err), p1)
      | (Inr frame, p1) \<Rightarrow>
     (case st_GetRound S (store p1) (PRIndex r) of
        Inl err \<Rightarrow> (Inl err, p1)
      | Inr rnd \<Rightarrow>
     (case commitFrame S frame p1 of
        (Some err, p2) \<Rightarrow> (Inl err, p2)
      | (None, p2) \<Rightarrow>
          if (case lastConsensusRound p2 of None \<Rightarrow> True | Some lcr \<Rightarrow> lcr <s PRIndex r)
          then (Inr True, setLastConsensusRound (PRIndex r) p2)
          else (Inr True, p2)))))"

fun processRounds ::
  "nat \<Rightarrow> 's Env \<Rightarrow> pendingRound list \<Rightarrow> nat \<Rightarrow> 's Poset \<Rightarrow> error option \<times> nat \<times> 's Poset" where
  "processRounds n S [] processedIndex p = (None, processedIndex, p)"
| "processRounds n S (r # rs) processedIndex p =
     (if \<not> Decided r then (None, processedIndex, p)
      else
        (case processRound n S r p of
           (Inl err, p1) \<Rightarrow> (Some err, processedIndex, p1)
         | (Inr counted, p1) \<Rightarrow>
             processRounds n S rs (if counted then Suc processedIndex else processedIndex) p1))"

text \<open>
  \<open>ProcessDecidedRounds\<close> takes the rounds whose witnesses are decided, computes the
  corresponding frames, maps them into blocks, and commits the blocks. The deferred
  function drops the first \<open>processedIndex\<close> pending rounds on the way out.
\<close>

definition ProcessDecidedRounds :: "nat \<Rightarrow> 's Env \<Rightarrow> 's Poset \<Rightarrow> error option \<times> 's Poset" where
  "ProcessDecidedRounds n S p =
     (case processRounds n S (pendingRounds p) 0 p of
        (err, processedIndex, p1) \<Rightarrow>
          (err, p1\<lparr> pendingRounds := drop processedIndex (pendingRounds p1) \<rparr>))"

section \<open>An in-memory store\<close>

text \<open>
  Modelled from the spec: the Store (section 4.1 of the specification; no store
  implementation is among the sources). Events, roots, rounds, blocks and frames are
  kept in association lists; a missing key is \<open>KeyNotFound\<close>; \<open>LastEventFrom\<close> is the
  creator's newest event, or the self-parent of its root (with isRoot) when it has
  none; \<open>Reset\<close> replaces the roots and empties the indices. The functions of package
  crypto are stand-ins: a body hashes to its creator's bytes, a signature decodes to
  its length, and it verifies when that length is the creator's. This store is the
  concrete instance on which the properties below are run.
\<close>

record memStore =
  ms_cacheSize :: int
  ms_events :: "(string \<times> Event) list"
  ms_roots :: "(string \<times> Root) list"
  ms_rounds :: "(int64 \<times> RoundInfo) list"
  ms_blocks :: "(int64 \<times> Block) list"
  ms_frames :: "(int64 \<times> Frame) list"
  ms_consensus :: "Event list"

definition lookupOr :: "('k \<times> 'v) list \<Rightarrow> 'k \<Rightarrow> error + 'v" where
  "lookupOr m k = (case map_of m k of None \<Rightarrow> Inl KeyNotFound | Some v \<Rightarrow> Inr v)"

definition lastFrom :: "Event list \<Rightarrow> (string \<times> Root) list \<Rightarrow> string \<Rightarrow> string \<times> bool \<times> error option" where
  "lastFrom evs roots pk =
     (case filter (\<lambda>e. Event_Creator e = pk) (rev evs) of
        e # es \<Rightarrow> (ev_hex e, False, None)
      | [] \<Rightarrow>
          (case map_of roots pk of
             Some rt \<Rightarrow> (REHash (SelfParent rt), True, None)
           | None \<Rightarrow> ([], False, Some KeyNotFound)))"

definition maxKey :: "(int64 \<times> 'v) list \<Rightarrow> int64" where
  "maxKey m = foldl (\<lambda>a k. if a <s k then k else a) (- 1) (map fst m)"

definition memEnv :: "memStore Env" where
  "memEnv =
     \<lparr> st_CacheSize = ms_cacheSize,
       st_GetEvent = (\<lambda>st h. lookupOr (ms_events st) h),
       st_SetEvent = (\<lambda>st e. (None, st\<lparr> ms_events := alist_upd (ev_hex e) e (ms_events st) \<rparr>)),
       st_LastEventFrom = (\<lambda>st pk. lastFrom (map snd (ms_events st)) (ms_roots st) pk),
       st_LastConsensusEventFrom = (\<lambda>st pk. lastFrom (ms_consensus st) (ms_roots st) pk),
       st_GetRoot = (\<lambda>st pk. lookupOr (ms_roots st) pk),
       st_RootsBySelfParent =
         (\<lambda>st. Inr (map (\<lambda>(k, rt). (REHash (SelfParent rt), rt)) (ms_roots st))),
       st_GetRound = (\<lambda>st r. lookupOr (ms_rounds st) r),
       st_SetRound = (\<lambda>st r ri. (None, st\<lparr> ms_rounds := alist_upd r ri (ms_rounds st) \<rparr>)),
       st_RoundWitnesses =
         (\<lambda>st r. case map_of (ms_rounds st) r of None \<Rightarrow> [] | Some ri \<Rightarrow> Witnesses ri),
       st_LastRound = (\<lambda>st. maxKey (ms_rounds st)),
       st_GetBlock = (\<lambda>st i. lookupOr (ms_blocks st) i),
       st_SetBlock =
         (\<lambda>st b. (None, st\<lparr> ms_blocks := alist_upd (BlockIndex b) b (ms_blocks st) \<rparr>)),
       st_LastBlockIndex = (\<lambda>st. maxKey (ms_blocks st)),
       st_GetFrame = (\<lambda>st r. lookupOr (ms_frames st) r),
       st_SetFrame =
         (\<lambda>st f. (None, st\<lparr> ms_frames := alist_upd (FrameRound f) f (ms_frames st) \<rparr>)),
       st_AddConsensusEvent = (\<lambda>st e. (None, st\<lparr> ms_consensus := ms_consensus st @ [e] \<rparr>)),
       st_Reset =
         (\<lambda>st roots. (None, st\<lparr> ms_events := [], ms_roots := roots, ms_rounds := [],
                                  ms_frames := [], ms_consensus := [] \<rparr>)),
       HashBody = (\<lambda>b. Inr (Creator b)),
       DecodeSignature =
         (\<lambda>sg. if sg = [] then Inl (Failed ''invalid signature encoding'')
                else Inr (int (length sg), 0)),
       cryptoVerify = (\<lambda>pub h r s. r = int (length pub)),
       BlockVerify = (\<lambda>b bs. Inr (BSSignature bs = ''valid'')),
       NewBlockFromFrame =
         (\<lambda>i f. Inr \<lparr> BlockIndex = i, BlockRoundReceived = FrameRound f, FrameHash = [],
                       BlockTransactions =
                         concat (map (\<lambda>e. case Transactions (Body e) of
                                             None \<Rightarrow> [] | Some ts \<Rightarrow> ts) (FrameEvents f)),
                       Signatures = [] \<rparr>) \<rparr>"

text \<open>Three participants A, B and C; an event builder; the base roots of a fresh DAG.\<close>

definition peerA :: Peer where
  "peerA = \<lparr> ID = 1, NetAddr = ''a'', PubKeyHex = ''0x0A'' \<rparr>"

definition peerB :: Peer where
  "peerB = \<lparr> ID = 2, NetAddr = ''b'', PubKeyHex = ''0x0B'' \<rparr>"

definition peerC :: Peer where
  "peerC = \<lparr> ID = 3, NetAddr = ''c'', PubKeyHex = ''0x0C'' \<rparr>"

definition peersABC :: Peers where
  "peersABC = [peerA, peerB, peerC]"

definition mkEvent ::
  "string \<Rightarrow> byte \<Rightarrow> int64 \<Rightarrow> string \<Rightarrow> string \<Rightarrow> byte list list option \<Rightarrow> string \<Rightarrow> Event" where
  "mkEvent h c i sp op txs sg =
     \<lparr> Body = \<lparr> Transactions = txs, InternalTransactions = [], Parents = [sp, op],
                Creator = [c], Index = i, BlockSignatures = [],
                selfParentIndex = - 1, otherParentCreatorID = - 1, otherParentIndex = - 1,
                creatorID = 0 \<rparr>,
       Signature = sg, ev_topologicalIndex = 0, ev_round = None, ev_lamportTimestamp = None,
       ev_roundReceived = None, ev_creator = [], ev_hash = [], ev_hex = h,
       FlagTable = [], WitnessProof = [] \<rparr>"

definition NewBaseRootEvent :: "int64 \<Rightarrow> string \<Rightarrow> RootEvent" where
  "NewBaseRootEvent cid h =
     \<lparr> REHash = h, RECreatorID = cid, REIndex = - 1, RELamportTimestamp = - 1, RERound = - 1 \<rparr>"

definition NewBaseRoot :: "int64 \<Rightarrow> string \<Rightarrow> Root" where
  "NewBaseRoot cid h = \<lparr> NextRound = 0, SelfParent = NewBaseRootEvent cid h, Others = [] \<rparr>"

definition baseRoots :: "(string \<times> Root) list" where
  "baseRoots =
     [(''0x0A'', NewBaseRoot 1 ''Root1''), (''0x0B'', NewBaseRoot 2 ''Root2''),
      (''0x0C'', NewBaseRoot 3 ''Root3'')]"

definition emptyStore :: memStore where
  "emptyStore =
     \<lparr> ms_cacheSize = 100, ms_events = [], ms_roots = baseRoots, ms_rounds = [],
       ms_blocks = [], ms_frames = [], ms_consensus = [] \<rparr>"

definition poset0 :: "memStore Poset" where
  "poset0 =
     \<lparr> participants = peersABC, store = emptyStore, core = None,
       superMajority = 3, trustCount = 1, commitCh = Some [],
       undeterminedEvents = [], pendingRounds = [],
       lastConsensusRound = None, firstConsensusRound = None,
       anchorBlock = None, sigPool = [], consensusTransactions = 0,
       pendingLoadedEvents = 0, topologicalIndex = 0,
       ancestorCache = \<lparr> cap = 100, entries = [] \<rparr>,
       selfAncestorCache = \<lparr> cap = 100, entries = [] \<rparr>,
       stronglySeeCache = \<lparr> cap = 100, entries = [] \<rparr>,
       roundCache = \<lparr> cap = 100, entries = [] \<rparr>,
       timestampCache = \<lparr> cap = 100, entries = [] \<rparr> \<rparr>"

text \<open>\<open>NewBaseRootEvent\<close> of root.go names the hash \<open>Root<id>\<close>; the examples pass it.\<close>

section \<open>IsLoaded\<close>

definition ev_internal_only :: Event where
  "ev_internal_only =
     (mkEvent ''0xE1'' 10 1 ''0xE0'' [] (Some []) ''s'')
       \<lparr> Body := (Body (mkEvent ''0xE1'' 10 1 ''0xE0'' [] (Some []) ''s''))
            \<lparr> InternalTransactions := [\<lparr> Type = PEER_ADD, Peer = peerB \<rparr>] \<rparr> \<rparr>"

section \<open>Frame conditions and invariants\<close>

text \<open>
  The graph predicates change nothing of the engine but its caches. \<open>eraseCaches\<close>
  forgets the five caches, \<open>dropTimestamps\<close> the timestamp cache alone; two engines
  are the same engine when they agree once their caches are forgotten.
  \<open>cacheKeysNonEmpty\<close> is the invariant of the ancestor and self-ancestor caches: no
  key has an empty hash.
\<close>

definition noCache :: "('k, 'v) lru" where
  "noCache = \<lparr> cap = 0, entries = [] \<rparr>"

definition dropTimestamps :: "'s Poset \<Rightarrow> 's Poset" where
  "dropTimestamps p = p\<lparr> timestampCache := noCache \<rparr>"

definition eraseCaches :: "'s Poset \<Rightarrow> 's Poset" where
  "eraseCaches p =
     p\<lparr> ancestorCache := noCache, selfAncestorCache := noCache, stronglySeeCache := noCache,
        roundCache := noCache, timestampCache := noCache \<rparr>"

definition cacheKeysNonEmpty :: "'s Poset \<Rightarrow> bool" where
  "cacheKeysNonEmpty p \<longleftrightarrow>
     (\<forall>k \<in> lru_keys (ancestorCache p) \<union> lru_keys (selfAncestorCache p).
        fst k \<noteq> [] \<and> snd k \<noteq> [])"

definition sameEngine :: "'s Poset \<Rightarrow> 's Poset \<Rightarrow> bool" where
  "sameEngine p p' \<longleftrightarrow> eraseCaches p' = eraseCaches p"

section \<open>Example events and DAGs\<close>

text \<open>
  An event whose signature decodes but does not verify, and the DAG of the first
  end-to-end scenario: e0, e1, e2, e10, e21, e02, f1 inserted in that order.
\<close>

definition ev_forged :: Event where
  "ev_forged = mkEvent ''0xE0'' 10 0 ''Root1'' [] (Some [[1]]) ''forged''"

definition dagEvents :: "Event list" where
  "dagEvents =
     [mkEvent ''0xE0'' 10 0 ''Root1'' [] (Some [[1]]) ''s'',
      mkEvent ''0xE1'' 11 0 ''Root2'' [] (Some [[2]]) ''s'',
      mkEvent ''0xE2'' 12 0 ''Root3'' [] (Some [[3]]) ''s'',
      mkEvent ''0xE10'' 11 1 ''0xE1'' ''0xE0'' None ''s'',
      mkEvent ''0xE21'' 12 1 ''0xE2'' ''0xE10'' None ''s'',
      mkEvent ''0xE02'' 10 1 ''0xE0'' ''0xE21'' None ''s'',
      mkEvent ''0xF1'' 11 2 ''0xE10'' ''0xE02'' None ''s'']"

definition dag7 :: "memStore Poset" where
  "dag7 = foldl (\<lambda>p e. snd (InsertEvent memEnv e True p)) poset0 dagEvents"

section \<open>Examples for Reset, the signature pool and the decided rounds\<close>

text \<open>
  \<open>warm7\<close> is the scenario DAG after the timestamp of e10 has been asked for (and
  cached); \<open>frameB\<close> and \<open>blockB\<close> are a frame and a block to reset to, in which e10
  is the self-parent of B's root, with Lamport timestamp 41.
\<close>

definition warm7 :: "memStore Poset" where
  "warm7 = snd (lamportTimestamp 5 memEnv ''0xE10'' dag7)"

definition frameB :: Frame where
  "frameB =
     \<lparr> FrameRound = 5,
       Roots = [NewBaseRoot 1 ''Root1'',
                \<lparr> NextRound = 6,
                  SelfParent = \<lparr> REHash = ''0xE10'', RECreatorID = 2, REIndex = 1,
                                 RELamportTimestamp = 41, RERound = 5 \<rparr>,
                  Others = [] \<rparr>,
                NewBaseRoot 3 ''Root3''],
       FrameEvents = [] \<rparr>"

definition blockB :: Block where
  "blockB = \<lparr> BlockIndex = 0, BlockRoundReceived = 5, FrameHash = [],
              BlockTransactions = [[1]], Signatures = [] \<rparr>"

text \<open>
  The conditions under which \<open>ProcessSigPool\<close> marks a signature: its validator is a
  participant, its block is above the anchor block, its block is known and the
  signature verifies against it. Then three pools of one signature: from an unknown
  validator; for a block that is not above the anchor; for a known block, valid.
\<close>

definition knownValidator :: "'s Poset \<Rightarrow> BlockSignature \<Rightarrow> bool" where
  "knownValidator p bs \<longleftrightarrow> ByPubKey (participants p) (''0x'' @ hexUpper (Validator bs)) \<noteq> None"

definition aboveAnchor :: "'s Poset \<Rightarrow> BlockSignature \<Rightarrow> bool" where
  "aboveAnchor p bs \<longleftrightarrow> (case anchorBlock p of None \<Rightarrow> True | Some a \<Rightarrow> a <s BSIndex bs)"

definition attachable :: "'s Env \<Rightarrow> 's Poset \<Rightarrow> BlockSignature \<Rightarrow> bool" where
  "attachable S p bs \<longleftrightarrow>
     (case st_GetBlock S (store p) (BSIndex bs) of
        Inl err \<Rightarrow> False
      | Inr block \<Rightarrow> BlockVerify S block bs = Inr True)"











text \<open>
  \<open>cursorAdvanced a b\<close>: the last consensus round b is set and not below a, when a is
  set. \<open>posetRounds\<close> has the last consensus round 1 and two decided pending rounds,
  0 and 2.
\<close>

definition cursorAdvanced :: "int64 option \<Rightarrow> int64 option \<Rightarrow> bool" where
  "cursorAdvanced a b \<longleftrightarrow>
     (case a of None \<Rightarrow> True | Some l \<Rightarrow> (case b of None \<Rightarrow> False | Some l' \<Rightarrow> l \<le>s l'))"

definition emptyRound :: RoundInfo where
  "emptyRound = \<lparr> Events = [], ConsensusEventList = [], queued = True \<rparr>"

definition posetRounds :: "memStore Poset" where
  "posetRounds =
     poset0\<lparr> store := emptyStore\<lparr> ms_rounds := [(0, emptyRound), (2, emptyRound)] \<rparr>,
             lastConsensusRound := Some 1, firstConsensusRound := Some 1,
             pendingRounds := [\<lparr> PRIndex = 0, Decided = True \<rparr>,
                               \<lparr> PRIndex = 2, Decided = True \<rparr>] \<rparr>"

section \<open>Properties\<close>

text \<open>
  C8 (counterexample). The claim "IsLoaded(e) iff e's index is 0 or e carries at least
  one transaction" fails at \<open>ev_internal_only\<close>: its index is 1 and its payload has no
  transaction, yet IsLoaded is true.
\<close>

theorem C8_IsLoaded_counterexample:
  "IsLoaded ev_internal_only \<and>
   \<not> (Index (Body ev_internal_only) = 0 \<or> len_Transactions (Body ev_internal_only) > 0)"
  by (simp add: IsLoaded_def ev_internal_only_def len_Transactions_def mkEvent_def)

text \<open>
  C8 (amended). IsLoaded(e) is true if and only if e's index is 0, or e's payload slice
  is not nil and e carries at least one payload transaction or at least one internal
  transaction.
\<close>

theorem C8_IsLoaded_amended:
  "IsLoaded e \<longleftrightarrow>
     Index (Body e) = 0 \<or>
     (Transactions (Body e) \<noteq> None \<and>
       (len_Transactions (Body e) > 0 \<or> InternalTransactions (Body e) \<noteq> []))"
  by (simp add: IsLoaded_def Let_def)

theorem C8_IsLoaded_amended_witness:
  "IsLoaded ev_internal_only \<and> Transactions (Body ev_internal_only) \<noteq> None \<and>
   InternalTransactions (Body ev_internal_only) \<noteq> []"
  using C8_IsLoaded_amended [of ev_internal_only]
  by (simp add: ev_internal_only_def mkEvent_def)

subsection \<open>The predicates only touch the caches\<close>

lemma lru_Get_Some_key: "lru_Get k c = (Some v, c') \<Longrightarrow> k \<in> lru_keys c"
  by (auto simp: lru_Get_def lru_keys_def split: option.splits dest: map_of_SomeD intro: rev_image_eqI)

lemma lru_keys_Get: "lru_keys (snd (lru_Get k c)) = lru_keys c"
  by (auto simp: lru_Get_def lru_keys_def split: option.splits dest: map_of_SomeD intro: rev_image_eqI)

lemma lru_keys_Add: "lru_keys (lru_Add k v c) \<subseteq> insert k (lru_keys c)"
  by (auto simp: lru_Add_def lru_keys_def dest!: in_set_takeD)

lemma dropTimestamps_upd [simp]: "dropTimestamps (p\<lparr> timestampCache := tc \<rparr>) = dropTimestamps p"
  by (simp add: dropTimestamps_def)

lemma lamportTimestampCached_drop:
  assumes "\<And>x p. dropTimestamps (snd (f x p)) = dropTimestamps p"
  shows "dropTimestamps (snd (lamportTimestampCached f x p)) = dropTimestamps p"
  using assms [of x "p\<lparr> timestampCache := snd (lru_Get x (timestampCache p)) \<rparr>"]
  by (auto simp: lamportTimestampCached_def split: prod.splits option.splits sum.splits)

lemma lamportTimestamp2_drop:
  assumes "\<And>x p. dropTimestamps (snd (rec x p)) = dropTimestamps p"
  shows "dropTimestamps (snd (lamportTimestamp2 S rec x p)) = dropTimestamps p"
proof -
  have store_eq: "\<And>p p'. dropTimestamps p' = dropTimestamps p \<Longrightarrow> True" by simp
  show ?thesis
    unfolding lamportTimestamp2_def
    by (auto split: option.splits sum.splits prod.splits if_splits
        dest!: arg_cong [where f = "\<lambda>q. dropTimestamps (snd q)"] simp: assms)
qed

lemma lamportTimestamp_drop:
  "dropTimestamps (snd (lamportTimestamp n S x p)) = dropTimestamps p"
proof (induction n arbitrary: x p)
  case 0
  show ?case by (simp add: lamportTimestampCached_drop)
next
  case (Suc n)
  show ?case by (simp add: lamportTimestampCached_drop lamportTimestamp2_drop Suc.IH)
qed

lemma sameEngine_refl [simp, intro!]: "sameEngine p p"
  by (simp add: sameEngine_def)

lemma sameEngine_trans: "sameEngine p p1 \<Longrightarrow> sameEngine p1 p2 \<Longrightarrow> sameEngine p p2"
  by (simp add: sameEngine_def)

lemma sameEngine_upd [simp]:
  "sameEngine p (p'\<lparr> timestampCache := tc \<rparr>) = sameEngine p p'"
  "sameEngine p (p'\<lparr> ancestorCache := ac \<rparr>) = sameEngine p p'"
  "sameEngine p (p'\<lparr> selfAncestorCache := ac \<rparr>) = sameEngine p p'"
  "sameEngine p (p'\<lparr> stronglySeeCache := ac \<rparr>) = sameEngine p p'"
  "sameEngine p (p'\<lparr> roundCache := rc \<rparr>) = sameEngine p p'"
  "sameEngine (p\<lparr> timestampCache := tc \<rparr>) p' = sameEngine p p'"
  "sameEngine (p\<lparr> ancestorCache := ac \<rparr>) p' = sameEngine p p'"
  "sameEngine (p\<lparr> selfAncestorCache := ac \<rparr>) p' = sameEngine p p'"
  "sameEngine (p\<lparr> stronglySeeCache := ac \<rparr>) p' = sameEngine p p'"
  "sameEngine (p\<lparr> roundCache := rc \<rparr>) p' = sameEngine p p'"
  by (simp_all add: sameEngine_def eraseCaches_def)

lemma sameEngine_fields:
  assumes "sameEngine p p'"
  shows "store p' = store p" and "participants p' = participants p"
    and "superMajority p' = superMajority p" and "trustCount p' = trustCount p"
    and "lastConsensusRound p' = lastConsensusRound p"
    and "undeterminedEvents p' = undeterminedEvents p"
    and "sigPool p' = sigPool p" and "topologicalIndex p' = topologicalIndex p"
    and "pendingLoadedEvents p' = pendingLoadedEvents p"
proof -
  have e: "eraseCaches p' = eraseCaches p" using assms by (simp add: sameEngine_def)
  have "store (eraseCaches p') = store (eraseCaches p)" by (simp only: e)
  then show "store p' = store p" by (simp add: eraseCaches_def)
  have "participants (eraseCaches p') = participants (eraseCaches p)" by (simp only: e)
  then show "participants p' = participants p" by (simp add: eraseCaches_def)
  have "superMajority (eraseCaches p') = superMajority (eraseCaches p)" by (simp only: e)
  then show "superMajority p' = superMajority p" by (simp add: eraseCaches_def)
  have "trustCount (eraseCaches p') = trustCount (eraseCaches p)" by (simp only: e)
  then show "trustCount p' = trustCount p" by (simp add: eraseCaches_def)
  have "lastConsensusRound (eraseCaches p') = lastConsensusRound (eraseCaches p)" by (simp only: e)
  then show "lastConsensusRound p' = lastConsensusRound p" by (simp add: eraseCaches_def)
  have "undeterminedEvents (eraseCaches p') = undeterminedEvents (eraseCaches p)" by (simp only: e)
  then show "undeterminedEvents p' = undeterminedEvents p" by (simp add: eraseCaches_def)
  have "sigPool (eraseCaches p') = sigPool (eraseCaches p)" by (simp only: e)
  then show "sigPool p' = sigPool p" by (simp add: eraseCaches_def)
  have "topologicalIndex (eraseCaches p') = topologicalIndex (eraseCaches p)" by (simp only: e)
  then show "topologicalIndex p' = topologicalIndex p" by (simp add: eraseCaches_def)
  have "pendingLoadedEvents (eraseCaches p') = pendingLoadedEvents (eraseCaches p)" by (simp only: e)
  then show "pendingLoadedEvents p' = pendingLoadedEvents p" by (simp add: eraseCaches_def)
qed

lemma eraseCaches_dropTimestamps: "eraseCaches (dropTimestamps p) = eraseCaches p"
  by (simp add: eraseCaches_def dropTimestamps_def)

lemma drop_imp_same:
  "dropTimestamps p' = dropTimestamps p \<Longrightarrow> sameEngine p p'"
  unfolding sameEngine_def by (metis eraseCaches_dropTimestamps)

lemma drop_imp_caches:
  assumes "dropTimestamps p' = dropTimestamps p"
  shows "ancestorCache p' = ancestorCache p" and "selfAncestorCache p' = selfAncestorCache p"
    and "stronglySeeCache p' = stronglySeeCache p" and "roundCache p' = roundCache p"
proof -
  have "ancestorCache (dropTimestamps p') = ancestorCache (dropTimestamps p)"
    by (simp only: assms)
  then show "ancestorCache p' = ancestorCache p" by (simp add: dropTimestamps_def)
  have "selfAncestorCache (dropTimestamps p') = selfAncestorCache (dropTimestamps p)"
    by (simp only: assms)
  then show "selfAncestorCache p' = selfAncestorCache p" by (simp add: dropTimestamps_def)
  have "stronglySeeCache (dropTimestamps p') = stronglySeeCache (dropTimestamps p)"
    by (simp only: assms)
  then show "stronglySeeCache p' = stronglySeeCache p" by (simp add: dropTimestamps_def)
  have "roundCache (dropTimestamps p') = roundCache (dropTimestamps p)"
    by (simp only: assms)
  then show "roundCache p' = roundCache p" by (simp add: dropTimestamps_def)
qed

lemma lamportTimestamp_same:
  "lamportTimestamp n S x p = (r, p') \<Longrightarrow> sameEngine p p'"
  using lamportTimestamp_drop [of n S x p] by (simp add: drop_imp_same)

lemma lamportTimestampDiff_same:
  "lamportTimestampDiff n S x y p = (r, p') \<Longrightarrow> sameEngine p p'"
  by (auto simp: lamportTimestampDiff_def split: prod.splits sum.splits
      dest!: lamportTimestamp_same intro: sameEngine_trans)

lemma ancestorOfParents_same:
  assumes "\<And>x y p r p'. rec x y p = (r, p') \<Longrightarrow> sameEngine p p'"
  shows "ancestorOfParents rec ex y p = (r, p') \<Longrightarrow> sameEngine p p'"
  by (auto simp: ancestorOfParents_def split: prod.splits sum.splits if_splits
      dest!: assms intro: sameEngine_trans)

lemma ancestor2_same:
  assumes rec: "\<And>x y p r p'. rec x y p = (r, p') \<Longrightarrow> sameEngine p p'"
  shows "ancestor2 n S rec x y p = (r, p') \<Longrightarrow> sameEngine p p'"
proof -
  have par: "sameEngine q q'" if "ancestorOfParents rec ex z q = (a, q')" for ex z q a q'
    using that by (rule ancestorOfParents_same [rotated]) (erule rec)
  show "ancestor2 n S rec x y p = (r, p') \<Longrightarrow> sameEngine p p'"
    unfolding ancestor2_def
    by (auto split: prod.splits sum.splits if_splits option.splits
        dest!: lamportTimestampDiff_same par intro: sameEngine_trans)
qed

lemma ancestorCached_same:
  assumes "\<And>x y p r p'. f x y p = (r, p') \<Longrightarrow> sameEngine p p'"
  shows "ancestorCached f x y p = (r, p') \<Longrightarrow> sameEngine p p'"
  unfolding ancestorCached_def
  by (auto split: prod.splits sum.splits if_splits option.splits dest!: assms)

lemma ancestor_same:
  "ancestor n S x y p = (r, p') \<Longrightarrow> sameEngine p p'"
proof (induction n arbitrary: x y p r p')
  case 0
  from "0.prems" show ?case
    by (simp, elim ancestorCached_same [rotated]) auto
next
  case (Suc n)
  from Suc.prems show ?case
    by (simp, elim ancestorCached_same [rotated] ancestor2_same [rotated]) (rule Suc.IH)
qed

lemma see_same: "see n S x y p = (r, p') \<Longrightarrow> sameEngine p p'"
  by (simp add: see_def ancestor_same)

lemma selfAncestor2_same: "selfAncestor2 S x y p = (r, p') \<Longrightarrow> sameEngine p p'"
  unfolding selfAncestor2_def
  by (auto split: prod.splits sum.splits if_splits option.splits)

lemma selfAncestor_same: "selfAncestor S x y p = (r, p') \<Longrightarrow> sameEngine p p'"
  unfolding selfAncestor_def
  by (auto split: prod.splits sum.splits if_splits option.splits dest!: selfAncestor2_same)

lemma MapSentinels2_same:
  assumes rec: "\<And>x y s p e s' p'. rec x y s p = (e, s', p') \<Longrightarrow> sameEngine p p'"
  shows "MapSentinels2 n S rec x y s p = (e, s', p') \<Longrightarrow> sameEngine p p'"
  unfolding MapSentinels2_def Let_def
  by (auto split: prod.splits sum.splits if_splits option.splits
      dest!: see_same rec intro: sameEngine_trans)

lemma MapSentinels_same:
  "MapSentinels n S x y s p = (e, s', p') \<Longrightarrow> sameEngine p p'"
proof (induction n arbitrary: x y s p e s' p')
  case 0
  from "0.prems" show ?case
    by (simp, elim MapSentinels2_same [rotated]) auto
next
  case (Suc n)
  from Suc.prems show ?case
    by (simp, elim MapSentinels2_same [rotated]) (rule Suc.IH)
qed

lemma stronglySee2_same: "stronglySee2 n S x y p = (r, p') \<Longrightarrow> sameEngine p p'"
  unfolding stronglySee2_def
  by (auto split: prod.splits option.splits dest!: MapSentinels_same)

lemma stronglySee_same: "stronglySee n S x y p = (r, p') \<Longrightarrow> sameEngine p p'"
  unfolding stronglySee_def
  by (auto split: prod.splits sum.splits if_splits option.splits dest!: stronglySee2_same)

subsection \<open>C1: a bad signature leaves the engine untouched\<close>

text \<open>
  C1. For every event whose signature does not verify (\<open>Verify\<close> returns false, with or
  without an error of its own), \<open>InsertEvent\<close> returns an error, and the engine it
  leaves is the engine it was given: the store, the topological index, the queue of
  undetermined events, the counter of pending loaded events and the signature pool are
  all unchanged.
\<close>

theorem C1_InsertEvent_bad_signature:
  "\<not> fst (Event_Verify S event) \<Longrightarrow>
   InsertEvent S event swi p =
     (Some (case snd (Event_Verify S event) of
              Some e \<Rightarrow> e | None \<Rightarrow> Failed ''invalid Event signature''), p)"
  by (cases "Event_Verify S event") (auto simp: InsertEvent_def split: option.splits)

lemma ev_forged_not_verified: "Event_Verify memEnv ev_forged = (False, None)"
  by (simp add: Event_Verify_def memEnv_def ev_forged_def mkEvent_def)

text \<open>The forged event on the empty three-participant engine.\<close>

theorem C1_InsertEvent_bad_signature_witness:
  "InsertEvent memEnv ev_forged True poset0 = (Some (Failed ''invalid Event signature''), poset0)"
  using C1_InsertEvent_bad_signature [of memEnv ev_forged True poset0]
  by (simp add: ev_forged_not_verified)

subsection \<open>C3: strongly seeing is a supermajority of sentinels\<close>







subsection \<open>C9: the empty hash\<close>

text \<open>
  The ancestor and self-ancestor caches are read before the test for an empty hash, so
  the property rests on the invariant that no cached key has an empty hash. The
  invariant holds of a new engine, and every predicate keeps it.
\<close>

lemma cacheKeysNonEmpty_cong:
  "ancestorCache p' = ancestorCache p \<Longrightarrow> selfAncestorCache p' = selfAncestorCache p \<Longrightarrow>
   cacheKeysNonEmpty p' = cacheKeysNonEmpty p"
  by (simp add: cacheKeysNonEmpty_def)

lemma lamportTimestamp_inv:
  "lamportTimestamp n S x p = (r, p') \<Longrightarrow> cacheKeysNonEmpty p \<Longrightarrow> cacheKeysNonEmpty p'"
  using lamportTimestamp_drop [of n S x p] drop_imp_caches [of p' p]
  by (simp add: cacheKeysNonEmpty_def)

lemma lamportTimestampDiff_inv:
  "lamportTimestampDiff n S x y p = (r, p') \<Longrightarrow> cacheKeysNonEmpty p \<Longrightarrow> cacheKeysNonEmpty p'"
  by (auto simp: lamportTimestampDiff_def split: prod.splits sum.splits
      dest: lamportTimestamp_inv)

lemma ancestorOfParents_inv:
  assumes "\<And>x y p r p'. rec x y p = (r, p') \<Longrightarrow> cacheKeysNonEmpty p \<Longrightarrow> cacheKeysNonEmpty p'"
  shows "ancestorOfParents rec ex y p = (r, p') \<Longrightarrow> cacheKeysNonEmpty p \<Longrightarrow> cacheKeysNonEmpty p'"
  by (auto simp: ancestorOfParents_def split: prod.splits sum.splits if_splits
      dest: assms)

lemma ancestor2_inv:
  assumes rec: "\<And>x y p r p'. rec x y p = (r, p') \<Longrightarrow> cacheKeysNonEmpty p \<Longrightarrow> cacheKeysNonEmpty p'"
  shows "ancestor2 n S rec x y p = (r, p') \<Longrightarrow> cacheKeysNonEmpty p \<Longrightarrow> cacheKeysNonEmpty p'"
proof -
  have par: "cacheKeysNonEmpty q'"
    if "ancestorOfParents rec ex z q = (a, q')" and "cacheKeysNonEmpty q" for ex z q a q'
    using that by (rule ancestorOfParents_inv [rotated]) (erule rec)
  show "ancestor2 n S rec x y p = (r, p') \<Longrightarrow> cacheKeysNonEmpty p \<Longrightarrow> cacheKeysNonEmpty p'"
    unfolding ancestor2_def
    by (auto split: prod.splits sum.splits if_splits option.splits
        dest: lamportTimestampDiff_inv par)
qed

lemma cacheKeysNonEmpty_Get_ancestor:
  "cacheKeysNonEmpty (p\<lparr> ancestorCache := snd (lru_Get k (ancestorCache p)) \<rparr>) = cacheKeysNonEmpty p"
  by (simp add: cacheKeysNonEmpty_def lru_keys_Get)

lemma cacheKeysNonEmpty_Get_self:
  "cacheKeysNonEmpty (p\<lparr> selfAncestorCache := snd (lru_Get k (selfAncestorCache p)) \<rparr>) = cacheKeysNonEmpty p"
  by (simp add: cacheKeysNonEmpty_def lru_keys_Get)

lemma cacheKeysNonEmpty_Add_ancestor:
  assumes "cacheKeysNonEmpty p" and "x \<noteq> []" and "y \<noteq> []"
  shows "cacheKeysNonEmpty (p\<lparr> ancestorCache := lru_Add (x, y) v (ancestorCache p) \<rparr>)"
  unfolding cacheKeysNonEmpty_def
proof (intro ballI)
  fix k
  assume "k \<in> lru_keys (ancestorCache (p\<lparr> ancestorCache := lru_Add (x, y) v (ancestorCache p) \<rparr>)) \<union>
              lru_keys (selfAncestorCache (p\<lparr> ancestorCache := lru_Add (x, y) v (ancestorCache p) \<rparr>))"
  then consider "k \<in> lru_keys (lru_Add (x, y) v (ancestorCache p))"
    | "k \<in> lru_keys (selfAncestorCache p)" by auto
  then show "fst k \<noteq> [] \<and> snd k \<noteq> []"
  proof cases
    case 1
    with lru_keys_Add [of "(x, y)" v "ancestorCache p"]
    have "k = (x, y) \<or> k \<in> lru_keys (ancestorCache p)" by blast
    with assms show ?thesis unfolding cacheKeysNonEmpty_def by auto
  next
    case 2
    with assms(1) show ?thesis unfolding cacheKeysNonEmpty_def by blast
  qed
qed

lemma cacheKeysNonEmpty_Add_self:
  assumes "cacheKeysNonEmpty p" and "x \<noteq> []" and "y \<noteq> []"
  shows "cacheKeysNonEmpty (p\<lparr> selfAncestorCache := lru_Add (x, y) v (selfAncestorCache p) \<rparr>)"
  unfolding cacheKeysNonEmpty_def
proof (intro ballI)
  fix k
  assume "k \<in> lru_keys (ancestorCache (p\<lparr> selfAncestorCache := lru_Add (x, y) v (selfAncestorCache p) \<rparr>)) \<union>
              lru_keys (selfAncestorCache (p\<lparr> selfAncestorCache := lru_Add (x, y) v (selfAncestorCache p) \<rparr>))"
  then consider "k \<in> lru_keys (lru_Add (x, y) v (selfAncestorCache p))"
    | "k \<in> lru_keys (ancestorCache p)" by auto
  then show "fst k \<noteq> [] \<and> snd k \<noteq> []"
  proof cases
    case 1
    with lru_keys_Add [of "(x, y)" v "selfAncestorCache p"]
    have "k = (x, y) \<or> k \<in> lru_keys (selfAncestorCache p)" by blast
    with assms show ?thesis unfolding cacheKeysNonEmpty_def by auto
  next
    case 2
    with assms(1) show ?thesis unfolding cacheKeysNonEmpty_def by blast
  qed
qed

lemma ancestorCached_inv:
  assumes f: "\<And>x y p r p'. f x y p = (r, p') \<Longrightarrow> cacheKeysNonEmpty p \<Longrightarrow> cacheKeysNonEmpty p'"
  shows "ancestorCached f x y p = (r, p') \<Longrightarrow> cacheKeysNonEmpty p \<Longrightarrow> cacheKeysNonEmpty p'"
proof -
  assume res: "ancestorCached f x y p = (r, p')" and inv: "cacheKeysNonEmpty p"
  obtain c ac where g: "lru_Get (x, y) (ancestorCache p) = (c, ac)" by force
  then have ac: "ac = snd (lru_Get (x, y) (ancestorCache p))" by simp
  have inv0: "cacheKeysNonEmpty (p\<lparr> ancestorCache := ac \<rparr>)"
    using inv by (simp add: ac cacheKeysNonEmpty_Get_ancestor)
  show "cacheKeysNonEmpty p'"
  proof (cases c)
    case (Some v)
    with res g inv0 show ?thesis by (auto simp: ancestorCached_def)
  next
    case None
    show ?thesis
    proof (cases "x = [] \<or> y = []")
      case True
      with res g None inv0 show ?thesis by (auto simp: ancestorCached_def)
    next
      case False
      obtain a q where fq: "f x y (p\<lparr> ancestorCache := ac \<rparr>) = (a, q)" by force
      then have q: "cacheKeysNonEmpty q" using inv0 by (rule f)
      show ?thesis
      proof (cases a)
        case (Inl e)
        with res g None False fq q show ?thesis by (auto simp: ancestorCached_def)
      next
        case (Inr b)
        with res g None False fq have "p' = q\<lparr> ancestorCache := lru_Add (x, y) b (ancestorCache q) \<rparr>"
          by (auto simp: ancestorCached_def)
        with q False show ?thesis by (simp add: cacheKeysNonEmpty_Add_ancestor)
      qed
    qed
  qed
qed

lemma ancestor_inv:
  "ancestor n S x y p = (r, p') \<Longrightarrow> cacheKeysNonEmpty p \<Longrightarrow> cacheKeysNonEmpty p'"
proof (induction n arbitrary: x y p r p')
  case 0
  have f0: "cacheKeysNonEmpty q'"
    if "(\<lambda>x y p. (Inl OutOfFuel :: error + bool, p)) a b q = (c, q')" and "cacheKeysNonEmpty q"
    for a b c and q q' :: "'a Poset"
    using that by simp
  from "0.prems"(1) have eq: "ancestorCached (\<lambda>x y p. (Inl OutOfFuel, p)) x y p = (r, p')"
    by simp
  show ?case
    by (rule ancestorCached_inv [where f = "\<lambda>x y p. (Inl OutOfFuel, p)", OF f0 eq "0.prems"(2)])
next
  case (Suc n)
  have a2: "cacheKeysNonEmpty q'"
    if "ancestor2 n S (ancestor n S) a b q = (c, q')" and "cacheKeysNonEmpty q" for a b q c q'
    by (rule ancestor2_inv [where rec = "ancestor n S", OF Suc.IH that])
  from Suc.prems(1) have eq: "ancestorCached (ancestor2 n S (ancestor n S)) x y p = (r, p')"
    by simp
  show ?case
    by (rule ancestorCached_inv [where f = "ancestor2 n S (ancestor n S)", OF a2 eq Suc.prems(2)])
qed

lemma see_inv:
  "see n S x y p = (r, p') \<Longrightarrow> cacheKeysNonEmpty p \<Longrightarrow> cacheKeysNonEmpty p'"
  unfolding see_def by (rule ancestor_inv)

lemma selfAncestor2_inv:
  "selfAncestor2 S x y p = (r, p') \<Longrightarrow> p' = p"
  unfolding selfAncestor2_def
  by (auto split: prod.splits sum.splits if_splits option.splits)

lemma selfAncestor_inv:
  assumes res: "selfAncestor S x y p = (r, p')" and inv: "cacheKeysNonEmpty p"
  shows "cacheKeysNonEmpty p'"
proof -
  obtain c ac where g: "lru_Get (x, y) (selfAncestorCache p) = (c, ac)" by force
  then have ac: "ac = snd (lru_Get (x, y) (selfAncestorCache p))" by simp
  have inv0: "cacheKeysNonEmpty (p\<lparr> selfAncestorCache := ac \<rparr>)"
    using inv by (simp add: ac cacheKeysNonEmpty_Get_self)
  show "cacheKeysNonEmpty p'"
  proof (cases c)
    case (Some v)
    with res g inv0 show ?thesis by (auto simp: selfAncestor_def)
  next
    case None
    show ?thesis
    proof (cases "x = [] \<or> y = []")
      case True
      with res g None inv0 show ?thesis by (auto simp: selfAncestor_def)
    next
      case False
      obtain a q where fq: "selfAncestor2 S x y (p\<lparr> selfAncestorCache := ac \<rparr>) = (a, q)" by force
      then have q: "q = p\<lparr> selfAncestorCache := ac \<rparr>" by (rule selfAncestor2_inv)
      show ?thesis
      proof (cases a)
        case (Inl e)
        with res g None False fq q inv0 show ?thesis by (auto simp: selfAncestor_def)
      next
        case (Inr b)
        with res g None False fq
        have p': "p' = q\<lparr> selfAncestorCache := lru_Add (x, y) b (selfAncestorCache q) \<rparr>"
          by (auto simp: selfAncestor_def)
        have "cacheKeysNonEmpty q" using q inv0 by simp
        then have "cacheKeysNonEmpty
                     (q\<lparr> selfAncestorCache := lru_Add (x, y) b (selfAncestorCache q) \<rparr>)"
          using False by (intro cacheKeysNonEmpty_Add_self) auto
        then show ?thesis by (simp only: p')
      qed
    qed
  qed
qed

lemma cacheKeysNonEmpty_other [simp]:
  "cacheKeysNonEmpty (p\<lparr> stronglySeeCache := c \<rparr>) = cacheKeysNonEmpty p"
  "cacheKeysNonEmpty (p\<lparr> roundCache := rc \<rparr>) = cacheKeysNonEmpty p"
  "cacheKeysNonEmpty (p\<lparr> timestampCache := rc \<rparr>) = cacheKeysNonEmpty p"
  by (simp_all add: cacheKeysNonEmpty_def)

lemma MapSentinels2_inv:
  assumes rec: "\<And>x y s p e s' p'. rec x y s p = (e, s', p') \<Longrightarrow> cacheKeysNonEmpty p \<Longrightarrow> cacheKeysNonEmpty p'"
  shows "MapSentinels2 n S rec x y s p = (e, s', p') \<Longrightarrow> cacheKeysNonEmpty p \<Longrightarrow> cacheKeysNonEmpty p'"
  unfolding MapSentinels2_def Let_def
  by (auto split: prod.splits sum.splits if_splits option.splits dest: see_inv rec)

lemma MapSentinels_inv:
  "MapSentinels n S x y s p = (e, s', p') \<Longrightarrow> cacheKeysNonEmpty p \<Longrightarrow> cacheKeysNonEmpty p'"
proof (induction n arbitrary: x y s p e s' p')
  case 0
  have f0: "cacheKeysNonEmpty q'"
    if "(\<lambda>x y s p. (Some OutOfFuel, s, p)) a b t q = (c, t', q')" and "cacheKeysNonEmpty q"
    for a b c and t t' :: "string set" and q q' :: "'a Poset"
    using that by simp
  from "0.prems"(1) have eq: "MapSentinels2 0 S (\<lambda>x y s p. (Some OutOfFuel, s, p)) x y s p = (e, s', p')"
    by simp
  show ?case
    by (rule MapSentinels2_inv [where rec = "\<lambda>x y s p. (Some OutOfFuel, s, p)", OF f0 eq "0.prems"(2)])
next
  case (Suc n)
  from Suc.prems(1) have eq: "MapSentinels2 (Suc n) S (MapSentinels n S) x y s p = (e, s', p')"
    by simp
  show ?case
    by (rule MapSentinels2_inv [where rec = "MapSentinels n S", OF Suc.IH eq Suc.prems(2)])
qed

lemma stronglySee_inv:
  "stronglySee n S x y p = (r, p') \<Longrightarrow> cacheKeysNonEmpty p \<Longrightarrow> cacheKeysNonEmpty p'"
  unfolding stronglySee_def stronglySee2_def
  by (auto split: prod.splits sum.splits if_splits option.splits dest: MapSentinels_inv)

lemma NewPoset_inv: "NewPoset S ps st ch = Inr p \<Longrightarrow> cacheKeysNonEmpty p"
  by (auto simp: NewPoset_def Let_def cacheKeysNonEmpty_def lru_keys_def split: if_splits)

lemma ancestorCached_empty:
  assumes "cacheKeysNonEmpty p" and "x = [] \<or> y = []"
  shows "fst (ancestorCached f x y p) = Inr False"
proof (cases "lru_Get (x, y) (ancestorCache p)")
  case (Pair r ac)
  show ?thesis
  proof (cases r)
    case None
    with Pair assms(2) show ?thesis by (auto simp: ancestorCached_def)
  next
    case (Some c)
    with Pair have "(x, y) \<in> lru_keys (ancestorCache p)" by (auto dest: lru_Get_Some_key)
    with assms(1) have "fst (x, y) \<noteq> [] \<and> snd (x, y) \<noteq> []"
      unfolding cacheKeysNonEmpty_def by blast
    with assms(2) show ?thesis by simp
  qed
qed

lemma ancestor_empty:
  assumes "cacheKeysNonEmpty p" and "x = [] \<or> y = []"
  shows "fst (ancestor n S x y p) = Inr False"
  using assms by (cases n) (simp_all add: ancestorCached_empty)

lemma selfAncestor_empty:
  assumes "cacheKeysNonEmpty p" and "x = [] \<or> y = []"
  shows "fst (selfAncestor S x y p) = Inr False"
proof (cases "lru_Get (x, y) (selfAncestorCache p)")
  case (Pair r ac)
  show ?thesis
  proof (cases r)
    case None
    with Pair assms(2) show ?thesis by (auto simp: selfAncestor_def)
  next
    case (Some c)
    with Pair have "(x, y) \<in> lru_keys (selfAncestorCache p)" by (auto dest: lru_Get_Some_key)
    with assms(1) have "fst (x, y) \<noteq> [] \<and> snd (x, y) \<noteq> []"
      unfolding cacheKeysNonEmpty_def by blast
    with assms(2) show ?thesis by simp
  qed
qed

lemma stronglySee_empty:
  assumes "x = [] \<or> y = []"
  shows "stronglySee n S x y p = (Inr False, p)"
  using assms by (auto simp: stronglySee_def)

text \<open>
  C9. In an engine whose ancestor and self-ancestor caches hold no key with an empty
  hash (every engine built by \<open>NewPoset\<close> and run through the predicates is one),
  \<open>ancestor\<close>, \<open>selfAncestor\<close> and \<open>stronglySee\<close> return false without error
  whenever either argument is the empty string.
\<close>

theorem C9_empty_hash:
  assumes "cacheKeysNonEmpty p" and "x = [] \<or> y = []"
  shows "fst (ancestor n S x y p) = Inr False \<and>
         fst (selfAncestor S x y p) = Inr False \<and>
         fst (stronglySee n S x y p) = Inr False"
  using assms by (simp add: ancestor_empty selfAncestor_empty stronglySee_empty)

lemma dag7_cacheKeysNonEmpty: "cacheKeysNonEmpty dag7"
  by code_simp

text \<open>The scenario DAG after a query has filled the caches.\<close>

theorem C9_empty_hash_witness:
  "fst (ancestor 10 memEnv [] ''0xE0'' (snd (ancestor 10 memEnv ''0xF1'' ''0xE0'' dag7))) = Inr False \<and>
   fst (selfAncestor memEnv [] ''0xE0'' (snd (ancestor 10 memEnv ''0xF1'' ''0xE0'' dag7))) = Inr False \<and>
   fst (stronglySee 10 memEnv [] ''0xE0'' (snd (ancestor 10 memEnv ''0xF1'' ''0xE0'' dag7))) = Inr False"
proof -
  have "cacheKeysNonEmpty (snd (ancestor 10 memEnv ''0xF1'' ''0xE0'' dag7))"
    using ancestor_inv [of 10 memEnv "''0xF1''" "''0xE0''" dag7] dag7_cacheKeysNonEmpty
    by (cases "ancestor 10 memEnv ''0xF1'' ''0xE0'' dag7") simp
  then show ?thesis
    using C9_empty_hash [of "snd (ancestor 10 memEnv ''0xF1'' ''0xE0'' dag7)" "[]" "''0xE0''" 10 memEnv]
    by simp
qed

subsection \<open>C6: Reset and the caches\<close>

text \<open>
  \<open>InsertEvent\<close> touches no cache, so what \<open>Reset\<close> does to the caches is what its
  own assignments do: it replaces the ancestor, self-ancestor, strongly-see and round
  caches, and leaves the timestamp cache as it was.
\<close>

lemma InsertEvent_caches:
  assumes "InsertEvent S ev swi p = (e, p')"
  shows "timestampCache p' = timestampCache p" and "ancestorCache p' = ancestorCache p"
    and "selfAncestorCache p' = selfAncestorCache p"
    and "stronglySeeCache p' = stronglySeeCache p" and "roundCache p' = roundCache p"
    and "lastConsensusRound p' = lastConsensusRound p"
  using assms unfolding InsertEvent_def Let_def
  by (auto split: prod.splits sum.splits if_splits option.splits)

lemma insertEvents_caches:
  "insertEvents S evs p = (e, p') \<Longrightarrow>
   timestampCache p' = timestampCache p \<and> ancestorCache p' = ancestorCache p \<and>
   selfAncestorCache p' = selfAncestorCache p \<and> stronglySeeCache p' = stronglySeeCache p \<and>
   roundCache p' = roundCache p \<and> lastConsensusRound p' = lastConsensusRound p"
proof (induction evs arbitrary: p)
  case Nil
  then show ?case by simp
next
  case (Cons ev evs)
  obtain e1 p1 where ie: "InsertEvent S ev False p = (e1, p1)" by force
  note c = InsertEvent_caches [OF ie]
  show ?case
  proof (cases e1)
    case None
    with Cons.prems ie have "insertEvents S evs p1 = (e, p')" by simp
    from Cons.IH [OF this] c show ?thesis by simp
  next
    case (Some a)
    with Cons.prems ie have "p' = p1" by simp
    with c show ?thesis by simp
  qed
qed

lemma Reset_keeps_timestampCache:
  "timestampCache (snd (Reset S block frame p)) = timestampCache p"
proof (cases "Reset S block frame p")
  case (Pair e p')
  then show ?thesis
    unfolding Reset_def Let_def setLastConsensusRound_def
    by (auto split: prod.splits sum.splits if_splits option.splits dest!: insertEvents_caches)
qed

lemma Reset_clears_other_caches:
  assumes "Reset S block frame p = (e, p')" and "0 < st_CacheSize S (store p)"
  shows "entries (ancestorCache p') = [] \<and> entries (selfAncestorCache p') = [] \<and>
         entries (stronglySeeCache p') = [] \<and> entries (roundCache p') = []"
  using assms unfolding Reset_def Let_def setLastConsensusRound_def
  by (auto split: prod.splits sum.splits if_splits option.splits dest!: insertEvents_caches)

text \<open>
  C6 (the code at the failing input). The claim says that after \<open>Reset\<close> all five
  caches are invalidated. On the scenario DAG with the timestamp of e10 cached,
  \<open>Reset\<close> to \<open>frameB\<close> succeeds and the timestamp cache still holds its three
  entries; \<open>lamportTimestamp\<close> of e10 then answers 1 from the cache, where the same
  Reset of the engine with an empty timestamp cache answers 41, the timestamp that the
  frame's root records.
\<close>

theorem C6_Reset_stale_timestamp:
  "fst (Reset memEnv blockB frameB warm7) = None \<and>
   lru_keys (timestampCache (snd (Reset memEnv blockB frameB warm7))) = {''0xE10'', ''0xE1'', ''0xE0''} \<and>
   fst (lamportTimestamp 5 memEnv ''0xE10'' (snd (Reset memEnv blockB frameB warm7))) = Inr 1 \<and>
   fst (lamportTimestamp 5 memEnv ''0xE10'' (snd (Reset memEnv blockB frameB dag7))) = Inr 41"
  by code_simp

subsection \<open>C7: the signature pool\<close>


lemma processSig_marks:
  assumes "processSig S i bs processed p = (Inr processed', p')"
  shows "processed' =
           (if knownValidator p bs \<and> (\<not> aboveAnchor p bs \<or> attachable S p bs)
            then insert (of_nat i) processed else processed)"
  using assms
  unfolding processSig_def knownValidator_def aboveAnchor_def attachable_def Let_def
  by (auto split: option.splits sum.splits if_splits)









lemma sigPoolLoop_nothing_marked:
  "sigPoolLoop S i pool processed p = (e, processed', p') \<Longrightarrow> processed \<subseteq> processed'"
proof (induction pool arbitrary: i processed p)
  case Nil
  then show ?case by simp
next
  case (Cons bs rest)
  obtain r p1 where ps: "processSig S i bs processed p = (r, p1)" by force
  show ?case
  proof (cases r)
    case (Inl err)
    with Cons.prems ps show ?thesis by simp
  next
    case (Inr processed1)
    with ps have "processed \<subseteq> processed1"
      by (auto dest!: processSig_marks split: if_splits)
    moreover from Cons.prems ps Inr
    have "sigPoolLoop S (Suc i) rest processed1 p1 = (e, processed', p')" by simp
    then have "processed1 \<subseteq> processed'" by (rule Cons.IH)
    ultimately show ?thesis by simp
  qed
qed




subsection \<open>C10: the last consensus round never decreases\<close>

lemma countSee_same: "countSee n S hx ws p = (r, p') \<Longrightarrow> sameEngine p p'"
proof (induction ws arbitrary: p r p')
  case Nil
  then show ?case by simp
next
  case (Cons w ws)
  obtain a p1 where s: "see n S hx w p = (a, p1)" by force
  then have s1: "sameEngine p p1" by (rule see_same)
  show ?case
  proof (cases a)
    case (Inl e)
    with Cons.prems s s1 show ?thesis by simp
  next
    case (Inr b)
    obtain c p2 where cs: "countSee n S hx ws p1 = (c, p2)" by force
    then have "sameEngine p1 p2" by (rule Cons.IH)
    with s1 have s2: "sameEngine p p2" by (rule sameEngine_trans)
    from Cons.prems s Inr cs have "p' = p2" by (cases c) auto
    with s2 show ?thesis by simp
  qed
qed

lemma isSee_same: "isSee n S hx ws r p = (b, p') \<Longrightarrow> sameEngine p p'"
proof (induction ws arbitrary: p b p')
  case Nil
  then show ?case by simp
next
  case (Cons w ws)
  show ?case
  proof (cases "w = r \<and> w \<noteq> hx")
    case False
    with Cons.prems have "isSee n S hx ws r p = (b, p')" by auto
    then show ?thesis by (rule Cons.IH)
  next
    case True
    obtain a p1 where s: "see n S hx w p = (a, p1)" by force
    then have s1: "sameEngine p p1" by (rule see_same)
    show ?thesis
    proof (cases a)
      case (Inl e)
      with Cons.prems True s s1 show ?thesis by auto
    next
      case (Inr v)
      show ?thesis
      proof (cases v)
        case True
        with Cons.prems \<open>w = r \<and> w \<noteq> hx\<close> s Inr s1 show ?thesis by auto
      next
        case False
        with Cons.prems \<open>w = r \<and> w \<noteq> hx\<close> s Inr have "isSee n S hx ws r p1 = (b, p')" by auto
        then have "sameEngine p1 p'" by (rule Cons.IH)
        with s1 show ?thesis by (rule sameEngine_trans)
      qed
    qed
  qed
qed

lemma countIsSee_same: "countIsSee n S hx ws rs p = (c, p') \<Longrightarrow> sameEngine p p'"
proof (induction rs arbitrary: p c p')
  case Nil
  then show ?case by simp
next
  case (Cons r rs)
  obtain b p1 where s: "isSee n S hx ws r p = (b, p1)" by force
  then have s1: "sameEngine p p1" by (rule isSee_same)
  obtain c2 p2 where cs: "countIsSee n S hx ws rs p1 = (c2, p2)" by force
  then have "sameEngine p1 p2" by (rule Cons.IH)
  with s1 have "sameEngine p p2" by (rule sameEngine_trans)
  moreover from Cons.prems s cs have "p' = p2" by simp
  ultimately show ?case by simp
qed

lemma roundByProofs_same: "roundByProofs n S ex pr p = (r, p') \<Longrightarrow> sameEngine p p'"
  unfolding roundByProofs_def Let_def
  by (auto split: prod.splits if_splits dest!: countIsSee_same intro: sameEngine_trans)

lemma round2_same:
  assumes rec: "\<And>x p r p'. rec x p = (r, p') \<Longrightarrow> sameEngine p p'"
  shows "round2 n S rec x p = (r, p') \<Longrightarrow> sameEngine p p'"
  unfolding round2_def Let_def
  by (auto split: prod.splits sum.splits if_splits option.splits
      dest!: rec countSee_same roundByProofs_same intro: sameEngine_trans)

lemma roundCached_same:
  assumes "\<And>x p r p'. f x p = (r, p') \<Longrightarrow> sameEngine p p'"
  shows "roundCached f x p = (r, p') \<Longrightarrow> sameEngine p p'"
  unfolding roundCached_def
  by (auto split: prod.splits sum.splits if_splits option.splits dest!: assms)

lemma round'_same: "round' n S x p = (r, p') \<Longrightarrow> sameEngine p p'"
proof (induction n arbitrary: x p r p')
  case 0
  have f0: "sameEngine q q'"
    if "(\<lambda>x p. (Inl OutOfFuel :: error + int64, p)) a q = (c, q')"
    for a c and q q' :: "'a Poset"
    using that by auto
  from "0.prems" have eq: "roundCached (\<lambda>x p. (Inl OutOfFuel, p)) x p = (r, p')" by simp
  show ?case
    by (rule roundCached_same [where f = "\<lambda>x p. (Inl OutOfFuel, p)", OF f0 eq])
next
  case (Suc n)
  have r2: "sameEngine q q'" if "round2 n S (round' n S) a q = (c, q')" for a q c q'
    by (rule round2_same [where rec = "round' n S", OF Suc.IH that])
  from Suc.prems have eq: "roundCached (round2 n S (round' n S)) x p = (r, p')" by simp
  show ?case
    by (rule roundCached_same [where f = "round2 n S (round' n S)", OF r2 eq])
qed

lemma createSelfParentRootEvent_same:
  "createSelfParentRootEvent n S ev p = (r, p') \<Longrightarrow> sameEngine p p'"
  unfolding createSelfParentRootEvent_def Let_def
  by (auto split: prod.splits sum.splits option.splits
      dest!: lamportTimestamp_same round'_same intro: sameEngine_trans)

lemma createOtherParentRootEvent_same:
  "createOtherParentRootEvent n S ev p = (r, p') \<Longrightarrow> sameEngine p p'"
  unfolding createOtherParentRootEvent_def Let_def
  by (auto split: prod.splits sum.splits option.splits if_splits
      dest!: lamportTimestamp_same round'_same intro: sameEngine_trans)

lemma createRoot_same: "createRoot n S ev p = (r, p') \<Longrightarrow> sameEngine p p'"
  unfolding createRoot_def
  by (auto split: prod.splits sum.splits option.splits if_splits
      dest!: round'_same createSelfParentRootEvent_same createOtherParentRootEvent_same
      intro: sameEngine_trans)

lemma frameRoots_same: "frameRoots n S evs roots p = (r, p') \<Longrightarrow> sameEngine p p'"
proof (induction evs arbitrary: roots p r p')
  case Nil
  then show ?case by simp
next
  case (Cons ev evs)
  show ?case
  proof (cases "map_of roots (Event_Creator ev)")
    case (Some rt)
    with Cons.prems have "frameRoots n S evs roots p = (r, p')" by simp
    then show ?thesis by (rule Cons.IH)
  next
    case None
    obtain a p1 where c: "createRoot n S ev p = (a, p1)" by force
    then have s1: "sameEngine p p1" by (rule createRoot_same)
    show ?thesis
    proof (cases a)
      case (Inl e)
      with Cons.prems None c s1 show ?thesis by simp
    next
      case (Inr rt)
      with Cons.prems None c
      have "frameRoots n S evs (alist_upd (Event_Creator ev) rt roots) p1 = (r, p')" by simp
      then have "sameEngine p1 p'" by (rule Cons.IH)
      with s1 show ?thesis by (rule sameEngine_trans)
    qed
  qed
qed

lemma absentRoots_same: "absentRoots n S peers roots p = (r, p') \<Longrightarrow> sameEngine p p'"
proof (induction peers arbitrary: roots p r p')
  case Nil
  then show ?case by simp
next
  case (Cons peer peers)
  show ?case
  proof (cases "map_of roots peer")
    case (Some rt)
    with Cons.prems have "absentRoots n S peers roots p = (r, p')" by simp
    then show ?thesis by (rule Cons.IH)
  next
    case None
    obtain h isRoot err where l: "st_LastConsensusEventFrom S (store p) peer = (h, isRoot, err)"
      by (metis prod_cases3)
    show ?thesis
    proof (cases err)
      case (Some e)
      with Cons.prems None l show ?thesis by simp
    next
      case noerr: None
      show ?thesis
      proof (cases isRoot)
        case True
        with Cons.prems None l noerr
        have "\<exists>roots'. absentRoots n S peers roots' p = (r, p')" by auto
        then show ?thesis by (auto dest: Cons.IH)
      next
        case False
        show ?thesis
        proof (cases "st_GetEvent S (store p) h")
          case (Inl e)
          with Cons.prems None l noerr False show ?thesis by simp
        next
          case (Inr lce)
          obtain a p1 where c: "createRoot n S lce p = (a, p1)" by force
          then have s1: "sameEngine p p1" by (rule createRoot_same)
          show ?thesis
          proof (cases a)
            case (Inl e)
            with Cons.prems None l noerr False Inr c s1 show ?thesis by simp
          next
            case rt: (Inr rt)
            with Cons.prems None l noerr False Inr c
            have "absentRoots n S peers (alist_upd peer rt roots) p1 = (r, p')" by simp
            then have "sameEngine p1 p'" by (rule Cons.IH)
            with s1 show ?thesis by (rule sameEngine_trans)
          qed
        qed
      qed
    qed
  qed
qed

lemma frameOthers_same:
  "frameOthers n S evs treated roots p = (r, p') \<Longrightarrow> sameEngine p p'"
proof (induction evs arbitrary: treated roots p r p')
  case Nil
  then show ?case by simp
next
  case (Cons ev evs)
  let ?t1 = "insert (Event_Hex S ev) treated"
  show ?case
  proof (cases "Event_OtherParent ev \<noteq> [] \<and> Event_OtherParent ev \<notin> ?t1")
    case False
    with Cons.prems have "frameOthers n S evs ?t1 roots p = (r, p')"
      by (auto simp: Let_def)
    then show ?thesis by (rule Cons.IH)
  next
    case True
    show ?thesis
    proof (cases "map_of roots (Event_Creator ev)")
      case None
      with Cons.prems True show ?thesis by (auto simp: Let_def)
    next
      case (Some rt)
      show ?thesis
      proof (cases "Event_SelfParent ev \<noteq> REHash (SelfParent rt)")
        case False
        with Cons.prems True Some have "frameOthers n S evs ?t1 roots p = (r, p')"
          by (auto simp: Let_def)
        then show ?thesis by (rule Cons.IH)
      next
        case sp: True
        obtain a p1 where c: "createOtherParentRootEvent n S ev p = (a, p1)" by force
        then have s1: "sameEngine p p1" by (rule createOtherParentRootEvent_same)
        show ?thesis
        proof (cases a)
          case (Inl e)
          with Cons.prems True Some sp c s1 show ?thesis by (auto simp: Let_def)
        next
          case (Inr other)
          with Cons.prems True Some sp c
          have "\<exists>roots'. frameOthers n S evs ?t1 roots' p1 = (r, p')" by (auto simp: Let_def)
          then have "sameEngine p1 p'" by (auto dest: Cons.IH)
          with s1 show ?thesis by (rule sameEngine_trans)
        qed
      qed
    qed
  qed
qed

lemma frameLoops_lastConsensusRound:
  "frameRoots n S evs roots p = (r, p') \<Longrightarrow> lastConsensusRound p' = lastConsensusRound p"
  "absentRoots n S peers roots p = (r, p') \<Longrightarrow> lastConsensusRound p' = lastConsensusRound p"
  "frameOthers n S evs treated roots p = (r, p') \<Longrightarrow> lastConsensusRound p' = lastConsensusRound p"
  by (auto dest!: frameRoots_same absentRoots_same frameOthers_same dest: sameEngine_fields(5))

lemma GetFrame_lastConsensusRound:
  "GetFrame n S rr p = (r, p') \<Longrightarrow> lastConsensusRound p' = lastConsensusRound p"
  unfolding GetFrame_def Let_def
  by (auto split: prod.splits sum.splits option.splits if_splits
      dest!: frameLoops_lastConsensusRound)

lemma commitEvents_lastConsensusRound:
  "commitEvents S evs p = (e, p') \<Longrightarrow> lastConsensusRound p' = lastConsensusRound p"
proof (induction evs arbitrary: p)
  case Nil
  then show ?case by simp
next
  case (Cons ev evs)
  from Cons.prems show ?case
    by (auto simp: Let_def split: prod.splits option.splits if_splits dest!: Cons.IH)
qed

lemma commitFrame_lastConsensusRound:
  "commitFrame S frame p = (e, p') \<Longrightarrow> lastConsensusRound p' = lastConsensusRound p"
  unfolding commitFrame_def Let_def
  by (auto split: prod.splits sum.splits option.splits if_splits
      dest!: commitEvents_lastConsensusRound)

lemma cursorAdvanced_refl [simp]: "cursorAdvanced a a"
  by (simp add: cursorAdvanced_def split: option.splits)

lemma cursorAdvanced_trans:
  "cursorAdvanced a b \<Longrightarrow> cursorAdvanced b c \<Longrightarrow> cursorAdvanced a c"
  by (auto simp: cursorAdvanced_def split: option.splits)

lemma processRound_cursor:
  assumes "processRound n S r p = (res, p')"
  shows "lastConsensusRound p' = lastConsensusRound p \<or>
         (lastConsensusRound p' = Some (PRIndex r) \<and>
          (case lastConsensusRound p of None \<Rightarrow> True | Some l \<Rightarrow> l <s PRIndex r))"
  using assms unfolding processRound_def setLastConsensusRound_def Let_def
  by (auto split: prod.splits sum.splits option.splits if_splits
      dest!: GetFrame_lastConsensusRound commitFrame_lastConsensusRound)

lemma processRound_advances:
  assumes "processRound n S r p = (res, p')"
  shows "cursorAdvanced (lastConsensusRound p) (lastConsensusRound p')"
  using processRound_cursor [OF assms]
  by (auto simp: cursorAdvanced_def split: option.splits)

lemma processRounds_advances:
  "processRounds n S rs k p = (e, k', p') \<Longrightarrow>
   cursorAdvanced (lastConsensusRound p) (lastConsensusRound p')"
proof (induction rs arbitrary: k p)
  case Nil
  then show ?case by simp
next
  case (Cons r rs)
  show ?case
  proof (cases "Decided r")
    case False
    with Cons.prems show ?thesis by simp
  next
    case True
    obtain res p1 where pr: "processRound n S r p = (res, p1)" by force
    then have a1: "cursorAdvanced (lastConsensusRound p) (lastConsensusRound p1)"
      by (rule processRound_advances)
    show ?thesis
    proof (cases res)
      case (Inl err)
      with Cons.prems True pr a1 show ?thesis by simp
    next
      case (Inr counted)
      with Cons.prems True pr
      have "\<exists>k1. processRounds n S rs k1 p1 = (e, k', p')" by auto
      then have "cursorAdvanced (lastConsensusRound p1) (lastConsensusRound p')"
        by (auto dest: Cons.IH)
      with a1 show ?thesis by (rule cursorAdvanced_trans)
    qed
  qed
qed

lemma ProcessDecidedRounds_advances:
  "cursorAdvanced (lastConsensusRound p) (lastConsensusRound (snd (ProcessDecidedRounds n S p)))"
proof -
  obtain e k p1 where l: "processRounds n S (pendingRounds p) 0 p = (e, k, p1)"
    by (metis prod_cases3)
  then have "cursorAdvanced (lastConsensusRound p) (lastConsensusRound p1)"
    by (rule processRounds_advances)
  with l show ?thesis by (simp add: ProcessDecidedRounds_def)
qed

lemma processRound_below:
  assumes "lastConsensusRound p = Some l" and "PRIndex r \<le>s l"
  shows "lastConsensusRound (snd (processRound n S r p)) = Some l"
proof (cases "processRound n S r p")
  case (Pair res p')
  from processRound_cursor [OF Pair] assms show ?thesis
    using Pair by (auto simp: signed.not_less [symmetric])
qed

text \<open>
  C10. Within a run of \<open>ProcessDecidedRounds\<close> the last consensus round never
  decreases: a value that is set at entry is set at exit, and not smaller; processing
  a pending round whose index is at or below the last consensus round leaves it
  unchanged; and processing a round either leaves it unchanged or overwrites it with
  the round's index, which is then strictly greater than the old value (or no value
  was set).
\<close>

theorem C10_lastConsensusRound_monotone:
  "(\<forall>l. lastConsensusRound p = Some l \<longrightarrow>
      (\<exists>l'. lastConsensusRound (snd (ProcessDecidedRounds n S p)) = Some l' \<and> l \<le>s l')) \<and>
   (\<forall>r l. lastConsensusRound p = Some l \<and> PRIndex r \<le>s l \<longrightarrow>
      lastConsensusRound (snd (processRound n S r p)) = Some l) \<and>
   (\<forall>r. lastConsensusRound (snd (processRound n S r p)) = lastConsensusRound p \<or>
        (lastConsensusRound (snd (processRound n S r p)) = Some (PRIndex r) \<and>
         (case lastConsensusRound p of None \<Rightarrow> True | Some l \<Rightarrow> l <s PRIndex r)))"
proof (intro conjI allI impI)
  fix l
  assume "lastConsensusRound p = Some l"
  with ProcessDecidedRounds_advances [of p n S]
  show "\<exists>l'. lastConsensusRound (snd (ProcessDecidedRounds n S p)) = Some l' \<and> l \<le>s l'"
    by (auto simp: cursorAdvanced_def split: option.splits)
next
  fix r :: pendingRound and l
  assume "lastConsensusRound p = Some l \<and> PRIndex r \<le>s l"
  then show "lastConsensusRound (snd (processRound n S r p)) = Some l"
    by (auto intro: processRound_below)
next
  fix r :: pendingRound
  show "lastConsensusRound (snd (processRound n S r p)) = lastConsensusRound p \<or>
        (lastConsensusRound (snd (processRound n S r p)) = Some (PRIndex r) \<and>
         (case lastConsensusRound p of None \<Rightarrow> True | Some l \<Rightarrow> l <s PRIndex r))"
    using processRound_cursor [of n S r p] by (cases "processRound n S r p") auto
qed

lemma posetRounds_run:
  "lastConsensusRound posetRounds = Some 1"
  "lastConsensusRound (snd (ProcessDecidedRounds 5 memEnv posetRounds)) = Some 2"
  "lastConsensusRound (snd (processRound 5 memEnv \<lparr> PRIndex = 0, Decided = True \<rparr> posetRounds)) = Some 1"
  by code_simp+

text \<open>
  With the last consensus round 1, the decided pending rounds 0 and 2 are processed:
  round 0 leaves the cursor at 1, round 2 moves it to 2.
\<close>

theorem C10_lastConsensusRound_monotone_witness:
  "lastConsensusRound posetRounds = Some 1 \<and>
   (\<exists>l'. lastConsensusRound (snd (ProcessDecidedRounds 5 memEnv posetRounds)) = Some l' \<and> 1 \<le>s l') \<and>
   lastConsensusRound (snd (processRound 5 memEnv \<lparr> PRIndex = 0, Decided = True \<rparr> posetRounds)) = Some 1"
  using C10_lastConsensusRound_monotone [of posetRounds 5 memEnv] posetRounds_run
  by simp

end
